theory Spec2Isabelle
  imports Main
begin

section \<open>SR715/SR720 calibration utility: shallow embedding of Serial\_SR720.py\<close>

text \<open>
  Conventions of the embedding.
  \<^item> A Python \<open>str\<close> is a \<open>string\<close>; each \<open>char\<close> is read as one code point below 256, so
    the text of the instrument protocol (ASCII) and Latin-1 notes are covered. A \<open>bytes\<close> value
    is a \<open>string\<close> as well, one \<open>char\<close> per byte.
  \<^item> Counters and indices are natural numbers: the source only counts upwards from zero and
    ranges over non-negative bounds.
  \<^item> A \<open>csv.DictReader\<close> cell that is missing (\<open>None\<close>) is the empty string: every access of
    the source is \<open>(r.get(k) or "")\<close>, which maps both to \<open>""\<close>.
  \<^item> Exceptions are values: a computation that can raise returns \<open>exn + 'a\<close>.
\<close>

subsection \<open>Python string primitives\<close>

datatype exn = SerialException string | ValueError string | IndexError string

fun exn_msg :: "exn \<Rightarrow> string" where
  "exn_msg (SerialException m) = m"
| "exn_msg (ValueError m) = m"
| "exn_msg (IndexError m) = m"

text \<open>\<open>str.isspace\<close> on one code point below 256: TAB..CR, FS..US, space, NEL, NBSP.\<close>

definition isspace :: "char \<Rightarrow> bool" where
  "isspace c = (let n = (of_char c :: nat)
                in (9 \<le> n \<and> n \<le> 13) \<or> (28 \<le> n \<and> n \<le> 32) \<or> n = 133 \<or> n = 160)"

definition lstrip :: "string \<Rightarrow> string" where
  "lstrip s = dropWhile isspace s"

definition rstrip :: "string \<Rightarrow> string" where
  "rstrip s = rev (dropWhile isspace (rev s))"

text \<open>\<open>s.strip()\<close>\<close>

definition strip :: "string \<Rightarrow> string" where
  "strip s = rstrip (lstrip s)"

text \<open>\<open>s.startswith(p)\<close>\<close>

definition startswith :: "string \<Rightarrow> string \<Rightarrow> bool" where
  "startswith s p = (take (length p) s = p)"

text \<open>\<open>s.split(c)\<close> for a one-character separator: always at least one piece.\<close>

fun split_sep :: "char \<Rightarrow> string \<Rightarrow> string list" where
  "split_sep c [] = [[]]"
| "split_sep c (x # xs) =
     (if x = c then [] # split_sep c xs
      else (case split_sep c xs of [] \<Rightarrow> [[x]] | p # ps \<Rightarrow> (x # p) # ps))"

text \<open>
  \<open>s.split(None, 1)\<close>: leading whitespace is skipped, the first word is cut at the next
  whitespace, and what follows the whitespace after it is kept as it is (when non-empty).
\<close>

definition split_ws1 :: "string \<Rightarrow> string list" where
  "split_ws1 s =
     (let s1 = dropWhile isspace s
      in if s1 = [] then []
         else (let w = takeWhile (\<lambda>c. \<not> isspace c) s1;
                   rest = dropWhile isspace (dropWhile (\<lambda>c. \<not> isspace c) s1)
               in if rest = [] then [w] else [w, rest]))"

text \<open>\<open>sep.join(parts)\<close>\<close>

fun join :: "string \<Rightarrow> string list \<Rightarrow> string" where
  "join sep [] = []"
| "join sep [p] = p"
| "join sep (p # q # ps) = p @ sep @ join sep (q # ps)"

text \<open>\<open>f"{n}"\<close> for a non-negative integer: its decimal digits.\<close>

fun str_nat :: "nat \<Rightarrow> string" where
  "str_nat n = (if n < 10 then [''0123456789'' ! n]
                else str_nat (n div 10) @ [''0123456789'' ! (n mod 10)])"

declare str_nat.simps [simp del]

subsection \<open>Building the full write command (restore\_from\_csv, lines 278--294)\<close>

text \<open>
  The segments of a write template, as the source computes \<open>parts\<close>: the template itself
  when it has no semicolon, otherwise its trimmed pieces with the blank ones dropped.
\<close>

definition parts_of :: "string \<Rightarrow> string list" where
  "parts_of cmd_write =
     (if CHR '';'' \<in> set cmd_write
      then map strip (filter (\<lambda>p. strip p \<noteq> []) (split_sep CHR '';'' cmd_write))
      else [cmd_write])"

text \<open>
  \<open>parts[-1]\<close> raises \<open>IndexError\<close> on an empty list (a template of semicolons and blanks
  only); the source does not catch it.
\<close>

definition full_cmd :: "string \<Rightarrow> string \<Rightarrow> exn + string" where
  "full_cmd cmd_write val =
     (let parts = parts_of cmd_write
      in if parts = [] then Inl (IndexError ''list index out of range'')
         else
           (let target = last parts;
                seg =
                  (if startswith target ''$CBT '' \<or> startswith target ''$CFT ''
                   then (let idx = (if length (split_ws1 target) > 1
                                    then strip (split_ws1 target ! 1) else [])
                         in if idx \<noteq> [] then target @ '','' @ val else target @ '' '' @ val)
                   else target @ '' '' @ val)
            in Inr (join '';'' (butlast parts @ [seg]))))"

text \<open>
  The separator the instrument grammar asks for, in the words of the specification: a comma
  after the index of an indexed amplitude (\<open>$CBT i\<close>) or floating-point (\<open>$CFT i\<close>) write,
  a space after every other command.
\<close>

definition spec_separator :: "string \<Rightarrow> string" where
  "spec_separator target =
     (if startswith target ''$CBT '' \<or> startswith target ''$CFT '' then '','' else '' '')"

subsection \<open>The parameter catalog (build\_dump\_items)\<close>

definition CBT_MIN_I :: nat where "CBT_MIN_I = 0"
definition CBT_MAX_I :: nat where "CBT_MAX_I = 94"
definition CRN_MIN :: nat where "CRN_MIN = 0"
definition CRN_MAX :: nat where "CRN_MAX = 3"
definition CFT_MIN_I :: nat where "CFT_MIN_I = 0"
definition CFT_MAX_I :: nat where "CFT_MAX_I = 120"

text \<open>A catalog entry: the dictionary with the five keys the source builds.\<close>

record item =
  key :: string
  cmd_read :: string
  cmd_write :: string
  scope :: string
  "notes" :: string

text \<open>
  A snapshot row: an entry with its captured value (\<open>dict(**it, value=val)\<close>). The column
  \<open>value\<close> of the source is the field \<open>val\<close>, \<open>value\<close> being a keyword here.
\<close>

record row = item +
  val :: string

definition idn_item :: item where
  "idn_item = \<lparr>key = ''IDN'', cmd_read = ''*IDN?'', cmd_write = [], scope = ''global'',
               notes = ''Instrument ID string''\<rparr>"

definition frq_item :: item where
  "frq_item = \<lparr>key = ''FRQ'', cmd_read = ''$FRQ?'', cmd_write = ''$FRQ'', scope = ''global'',
               notes = ''Frequency correction factor (ppm, '' @ [CHR 0xB1] @ ''10000, 0.1ppm)''\<rparr>"

definition rnd_item :: item where
  "rnd_item = \<lparr>key = ''RND'', cmd_read = ''$RND?'', cmd_write = ''$RND'', scope = ''global'',
               notes = ''Rounding (-1 auto, 0..3 fixed digits)''\<rparr>"

definition cbt_item :: "nat \<Rightarrow> item" where
  "cbt_item i = \<lparr>key = ''CBT['' @ str_nat i @ '']'', cmd_read = ''$CBT? '' @ str_nat i,
                 cmd_write = ''$CBT '' @ str_nat i, scope = ''global'',
                 notes = ''Amplitude calbyte (j=0..255)''\<rparr>"

definition cmj_item :: "nat \<Rightarrow> item" where
  "cmj_item r = \<lparr>key = ''CMJ@R'' @ str_nat r, cmd_read = ''$CRN '' @ str_nat r @ '';$CMJ?'',
                 cmd_write = ''$CRN '' @ str_nat r @ '';$CMJ'', scope = ''range:'' @ str_nat r,
                 notes = ''Std resistor cal: major parameter (Ohms) for range r''\<rparr>"

definition cmn_item :: "nat \<Rightarrow> item" where
  "cmn_item r = \<lparr>key = ''CMN@R'' @ str_nat r, cmd_read = ''$CRN '' @ str_nat r @ '';$CMN?'',
                 cmd_write = ''$CRN '' @ str_nat r @ '';$CMN'', scope = ''range:'' @ str_nat r,
                 notes = ''Std resistor cal: minor parameter (ppm) for range r''\<rparr>"

definition cft_item :: "nat \<Rightarrow> item" where
  "cft_item i = \<lparr>key = ''CFT['' @ str_nat i @ '']'', cmd_read = ''$CFT? '' @ str_nat i,
                 cmd_write = ''$CFT '' @ str_nat i, scope = ''global'',
                 notes = ''Floating point calbyte i = 0..120''\<rparr>"

text \<open>\<open>range(a, b + 1)\<close> is \<open>[a..<b + 1]\<close>; the appends of the source, in their order.\<close>

definition build_dump_items :: "item list" where
  "build_dump_items =
     [idn_item, frq_item, rnd_item]
     @ map cbt_item [CBT_MIN_I..<CBT_MAX_I + 1]
     @ concat (map (\<lambda>r. [cmj_item r, cmn_item r]) [CRN_MIN..<CRN_MAX + 1])
     @ map cft_item [CFT_MIN_I..<CFT_MAX_I + 1]"

text \<open>Reading a decimal numeral back, to tell the keys of different indices apart.\<close>

definition digits_value :: "string \<Rightarrow> nat" where
  "digits_value s = foldl (\<lambda>a c. 10 * a + (of_char c - 48)) 0 s"

subsection \<open>The serial port\<close>

text \<open>
  The port and the instrument behind it are external. A device is any deterministic state
  machine of type \<open>'d\<close> answering the four calls the source makes on \<open>serial.Serial\<close>; each
  call may raise. \<open>readline\<close> returns the bytes of one line, or no bytes on a timeout.
\<close>

record 'd device =
  dev_write :: "string \<Rightarrow> 'd \<Rightarrow> exn option \<times> 'd"
  dev_flush :: "'d \<Rightarrow> exn option \<times> 'd"
  dev_reset_input_buffer :: "'d \<Rightarrow> exn option \<times> 'd"
  dev_readline :: "'d \<Rightarrow> (exn + string) \<times> 'd"

text \<open>
  What crossed the wire: the bytes handed to every \<open>ser.write\<close>, and the bytes every
  \<open>ser.readline\<close> returned, in order. The wire is an observation only; no function of the
  source reads it.
\<close>

datatype wire_event = Sent string | Received string

record 'd port =
  dev_state :: 'd
  wire :: "wire_event list"

type_synonym ('d, 'a) io = "'d port \<Rightarrow> (exn + 'a) \<times> 'd port"

definition io_return :: "'a \<Rightarrow> ('d, 'a) io" where
  "io_return a s = (Inr a, s)"

text \<open>Sequencing: an exception of the first computation ends the sequence.\<close>

definition io_bind :: "('d, 'a) io \<Rightarrow> ('a \<Rightarrow> ('d, 'b) io) \<Rightarrow> ('d, 'b) io" where
  "io_bind m f s = (case m s of (Inl e, s') \<Rightarrow> (Inl e, s') | (Inr a, s') \<Rightarrow> f a s')"

definition ser_write :: "'d device \<Rightarrow> string \<Rightarrow> ('d, unit) io" where
  "ser_write D bytes s =
     (case dev_write D bytes (dev_state s) of
        (None, d') \<Rightarrow> (Inr (), \<lparr>dev_state = d', wire = wire s @ [Sent bytes]\<rparr>)
      | (Some e, d') \<Rightarrow> (Inl e, \<lparr>dev_state = d', wire = wire s @ [Sent bytes]\<rparr>))"

definition ser_flush :: "'d device \<Rightarrow> ('d, unit) io" where
  "ser_flush D s =
     (case dev_flush D (dev_state s) of
        (None, d') \<Rightarrow> (Inr (), s\<lparr>dev_state := d'\<rparr>)
      | (Some e, d') \<Rightarrow> (Inl e, s\<lparr>dev_state := d'\<rparr>))"

definition ser_reset_input_buffer :: "'d device \<Rightarrow> ('d, unit) io" where
  "ser_reset_input_buffer D s =
     (case dev_reset_input_buffer D (dev_state s) of
        (None, d') \<Rightarrow> (Inr (), s\<lparr>dev_state := d'\<rparr>)
      | (Some e, d') \<Rightarrow> (Inl e, s\<lparr>dev_state := d'\<rparr>))"

definition ser_readline :: "'d device \<Rightarrow> ('d, string) io" where
  "ser_readline D s =
     (case dev_readline D (dev_state s) of
        (Inr raw, d') \<Rightarrow> (Inr raw, \<lparr>dev_state = d', wire = wire s @ [Received raw]\<rparr>)
      | (Inl e, d') \<Rightarrow> (Inl e, s\<lparr>dev_state := d'\<rparr>))"

text \<open>\<open>s.encode("ascii", errors="ignore")\<close> and \<open>b.decode("ascii", errors="ignore")\<close>.\<close>

definition encode_ascii :: "string \<Rightarrow> string" where
  "encode_ascii s = filter (\<lambda>c. (of_char c :: nat) < 128) s"

definition decode_ascii :: "string \<Rightarrow> string" where
  "decode_ascii b = filter (\<lambda>c. (of_char c :: nat) < 128) b"

text \<open>The pauses of the source (\<open>time.sleep\<close>) have no effect on the port and are left out.\<close>

definition clear_com_buffer :: "'d device \<Rightarrow> ('d, unit) io" where
  "clear_com_buffer D = io_bind (ser_write D ''\<newline>'') (\<lambda>_. ser_flush D)"

definition send_cmd :: "'d device \<Rightarrow> string \<Rightarrow> string \<Rightarrow> ('d, unit) io" where
  "send_cmd D cmd eol =
     io_bind (clear_com_buffer D) (\<lambda>_.
     io_bind (ser_write D (encode_ascii (cmd @ eol))) (\<lambda>_.
     ser_flush D))"

definition read_line :: "'d device \<Rightarrow> ('d, string) io" where
  "read_line D =
     io_bind (clear_com_buffer D) (\<lambda>_.
     io_bind (ser_readline D) (\<lambda>raw.
     io_return (if raw = [] then [] else strip (decode_ascii raw))))"

definition query :: "'d device \<Rightarrow> string \<Rightarrow> string \<Rightarrow> ('d, string) io" where
  "query D cmd eol =
     io_bind (ser_reset_input_buffer D) (\<lambda>_.
     io_bind (send_cmd D cmd eol) (\<lambda>_.
     read_line D))"

definition try_query :: "'d device \<Rightarrow> string \<Rightarrow> string \<Rightarrow> ('d, bool \<times> string) io" where
  "try_query D cmd eol =
     io_bind (query D cmd eol) (\<lambda>resp.
     io_return (if resp = [] then (False, []) else (True, resp)))"

text \<open>A device none of whose calls ever raises.\<close>

definition never_raises :: "'d device \<Rightarrow> bool" where
  "never_raises D \<longleftrightarrow>
     (\<forall>b d. fst (dev_write D b d) = None) \<and> (\<forall>d. fst (dev_flush D d) = None) \<and>
     (\<forall>d. fst (dev_reset_input_buffer D d) = None) \<and> (\<forall>d. \<exists>raw. fst (dev_readline D d) = Inr raw)"

text \<open>The exchange of one successful query, as seen on the wire.\<close>

definition query_exchange :: "string \<Rightarrow> string \<Rightarrow> string \<Rightarrow> wire_event list" where
  "query_exchange cmd eol raw =
     [Sent ''\<newline>'', Sent (encode_ascii (cmd @ eol)), Sent ''\<newline>'', Received raw]"

subsection \<open>The serial configuration\<close>

text \<open>
  The fields of \<open>SerialCfg\<close> the port is opened with; the two timeouts (floats) configure the
  device and are part of its behaviour here. Only \<open>eol\<close> is read after the port is open.
\<close>

record SerialCfg =
  port_name :: string
  baud :: int
  bytesize :: int
  parity :: string
  stopbits :: int
  eol :: string

subsection \<open>Floating point\<close>

text \<open>
  Python floats are not modelled. The float operations the source uses are parameters
  of the embedding, over any carrier \<open>'f\<close>: \<open>float(s)\<close> (\<open>None\<close> when it raises
  \<open>ValueError\<close>), subtraction, \<open>math.isclose(a, b, rel_tol=r, abs_tol=t)\<close> (which raises
  \<open>ValueError\<close> on a negative tolerance), the rendering \<open>f"{x:.12g}"\<close>, together with the
  literal \<open>0.0\<close> and \<open>str(x)\<close>. Every theorem below holds for every choice of them.
\<close>

record 'f float_ops =
  float_of_str :: "string \<Rightarrow> 'f option"
  f_sub :: "'f \<Rightarrow> 'f \<Rightarrow> 'f"
  isclose :: "'f \<Rightarrow> 'f \<Rightarrow> 'f \<Rightarrow> 'f \<Rightarrow> exn + bool"
  fmt_12g :: "'f \<Rightarrow> string"
  f_zero :: 'f
  f_str :: "'f \<Rightarrow> string"

definition to_float_or_none :: "'f float_ops \<Rightarrow> string \<Rightarrow> 'f option" where
  "to_float_or_none F s = float_of_str F s"

definition compare_values :: "'f float_ops \<Rightarrow> string \<Rightarrow> string \<Rightarrow> 'f \<Rightarrow> exn + (bool \<times> string)" where
  "compare_values F expected actual tol =
     (let exp = strip expected; act = strip actual
      in if exp = act then Inr (True, [])
         else
           (case (to_float_or_none F exp, to_float_or_none F act) of
              (Some exp_num, Some act_num) \<Rightarrow>
                (let delta = f_sub F act_num exp_num
                 in case isclose F exp_num act_num tol tol of
                      Inl e \<Rightarrow> Inl e
                    | Inr close \<Rightarrow>
                        if close then Inr (True, fmt_12g F delta)
                        else Inr (False, fmt_12g F delta))
            | _ \<Rightarrow> Inr (False, [])))"

subsection \<open>Loops over rows\<close>

text \<open>A \<open>for\<close> loop whose body may raise: the first exception ends the loop.\<close>

fun for_each :: "('a \<Rightarrow> 's \<Rightarrow> exn + 's) \<Rightarrow> 'a list \<Rightarrow> 's \<Rightarrow> exn + 's" where
  "for_each body [] st = Inr st"
| "for_each body (x # xs) st =
     (case body x st of Inl e \<Rightarrow> Inl e | Inr st' \<Rightarrow> for_each body xs st')"

subsection \<open>Dump (dump\_to\_csv)\<close>

text \<open>
  The log is the list of strings written to the log file by the run, the snapshot file is
  the list of rows handed to the CSV writer, and \<open>now\<close> is the text of \<open>time.ctime()\<close>.
\<close>

record 'd dump_state =
  d_port :: "'d port"
  d_log :: "string list"
  d_rows :: "row list"
  ok_count :: nat
  fail_count :: nat

definition row_of :: "item \<Rightarrow> string \<Rightarrow> row" where
  "row_of it v = \<lparr>key = key it, cmd_read = cmd_read it, cmd_write = cmd_write it,
                  scope = scope it, notes = notes it, val = v\<rparr>"

definition dump_item :: "'d device \<Rightarrow> string \<Rightarrow> item \<Rightarrow> 'd dump_state \<Rightarrow> exn + 'd dump_state" where
  "dump_item D eol' it st =
     (case try_query D (cmd_read it) eol' (d_port st) of
        (Inl e, s') \<Rightarrow> Inl e
      | (Inr (ok, v), s') \<Rightarrow>
          if ok
          then Inr (st\<lparr>d_port := s', ok_count := ok_count st + 1,
                 d_log := d_log st @
                   [''[ OK ] '' @ key it @ '' | '' @ cmd_read it @ '' -> '' @ v @ ''\<newline>''],
                 d_rows := d_rows st @ [row_of it v]\<rparr>)
          else Inr (st\<lparr>d_port := s', fail_count := fail_count st + 1,
                 d_log := d_log st @
                   [''[FAIL] '' @ key it @ '' | '' @ cmd_read it @ '' -> (no response)\<newline>''],
                 d_rows := d_rows st @ [row_of it []]\<rparr>))"

record 'd dump_result =
  dump_csv :: "row list"
  dump_log :: "string list"
  dump_total :: nat
  dump_ok :: nat
  dump_fail :: nat
  dump_port :: "'d port"

definition dump_to_csv :: "'d device \<Rightarrow> SerialCfg \<Rightarrow> string \<Rightarrow> 'd port \<Rightarrow> exn + 'd dump_result" where
  "dump_to_csv D cfg now s =
     (let items = build_dump_items;
          st0 = \<lparr>d_port = s, d_log = [''\<newline>--- DUMP START '' @ now @ '' ---\<newline>''],
                 d_rows = [], ok_count = 0, fail_count = 0\<rparr>
      in case for_each (dump_item D (eol cfg)) items st0 of
           Inl e \<Rightarrow> Inl e
         | Inr st \<Rightarrow>
             Inr \<lparr>dump_csv = d_rows st,
                  dump_log = d_log st @
                    [''--- DUMP END ('' @ str_nat (length (d_rows st)) @ '' rows) ---\<newline>''],
                  dump_total = length (d_rows st), dump_ok = ok_count st,
                  dump_fail = fail_count st, dump_port = d_port st\<rparr>)"

subsection \<open>Compare (compare\_from\_csv)\<close>

record result =
  res_key :: string
  res_cmd_read :: string
  expected :: string
  actual :: string
  status :: string
  delta :: string
  res_notes :: string

record 'd compare_state =
  c_port :: "'d port"
  c_log :: "string list"
  results :: "result list"
  match_count :: nat
  mismatch_count :: nat
  cmp_skip_count :: nat
  read_fail_count :: nat

definition compare_row ::
  "'f float_ops \<Rightarrow> 'd device \<Rightarrow> string \<Rightarrow> 'f \<Rightarrow> row \<Rightarrow> 'd compare_state \<Rightarrow> exn + 'd compare_state" where
  "compare_row F D eol' tol r st =
     (let k = strip (key r); cr = strip (cmd_read r); expd = strip (val r);
          nts = strip (notes r)
      in if cr = [] \<or> expd = []
         then Inr (st\<lparr>cmp_skip_count := cmp_skip_count st + 1,
                c_log := c_log st @
                  [''[SKIP] '' @ k @ '' | cmd_read='' @ [CHR 0x27] @ cr @ [CHR 0x27] @
                   '' expected='' @ [CHR 0x27] @ expd @ [CHR 0x27] @ ''\<newline>''],
                results := results st @
                  [\<lparr>res_key = k, res_cmd_read = cr, expected = expd, actual = [],
                    status = ''skipped'', delta = [], res_notes = nts\<rparr>]\<rparr>)
         else
           (case try_query D cr eol' (c_port st) of
              (Inl e, s') \<Rightarrow> Inl e
            | (Inr (ok_read, act), s') \<Rightarrow>
                if \<not> ok_read
                then Inr (st\<lparr>c_port := s', read_fail_count := read_fail_count st + 1,
                       c_log := c_log st @
                         [''[FAIL] '' @ k @ '' | '' @ cr @ '' -> (no response)\<newline>''],
                       results := results st @
                         [\<lparr>res_key = k, res_cmd_read = cr, expected = expd, actual = [],
                           status = ''read_fail'', delta = [], res_notes = nts\<rparr>]\<rparr>)
                else
                  (case compare_values F expd act tol of
                     Inl e \<Rightarrow> Inl e
                   | Inr (is_match, dlt) \<Rightarrow>
                       if is_match
                       then Inr (st\<lparr>c_port := s', match_count := match_count st + 1,
                              c_log := c_log st @
                                [''[ OK ] '' @ k @ '' | expected='' @ expd @ '' actual='' @ act @
                                 '' delta='' @ dlt @ ''\<newline>''],
                              results := results st @
                                [\<lparr>res_key = k, res_cmd_read = cr, expected = expd, actual = act,
                                  status = ''match'', delta = dlt, res_notes = nts\<rparr>]\<rparr>)
                       else Inr (st\<lparr>c_port := s', mismatch_count := mismatch_count st + 1,
                              c_log := c_log st @
                                [''[DIFF] '' @ k @ '' | expected='' @ expd @ '' actual='' @ act @
                                 '' delta='' @ dlt @ ''\<newline>''],
                              results := results st @
                                [\<lparr>res_key = k, res_cmd_read = cr, expected = expd, actual = act,
                                  status = ''mismatch'', delta = dlt, res_notes = nts\<rparr>]\<rparr>))))"

record 'd compare_result =
  report :: "result list"
  compare_log :: "string list"
  cmp_match :: nat
  cmp_mismatch :: nat
  cmp_read_fail :: nat
  cmp_skipped :: nat
  cmp_total :: nat
  compare_port :: "'d port"

definition info_line :: "bool \<Rightarrow> string \<Rightarrow> string" where
  "info_line ok idn = ''[INFO] *IDN? -> '' @ (if ok then idn else ''(no response)'') @ ''\<newline>''"

definition compare_from_csv ::
  "'f float_ops \<Rightarrow> 'd device \<Rightarrow> SerialCfg \<Rightarrow> string \<Rightarrow> row list \<Rightarrow> 'f \<Rightarrow> 'd port
     \<Rightarrow> exn + 'd compare_result" where
  "compare_from_csv F D cfg now rows tol s =
     (case try_query D ''*IDN?'' (eol cfg) s of
        (Inl e, s1) \<Rightarrow> Inl e
      | (Inr (ok, idn), s1) \<Rightarrow>
          (let st0 = \<lparr>c_port = s1,
                      c_log = [''\<newline>--- COMPARE START '' @ now @ '' | tol='' @ f_str F tol @
                               '' ---\<newline>'', info_line ok idn],
                      results = [], match_count = 0, mismatch_count = 0, cmp_skip_count = 0,
                      read_fail_count = 0\<rparr>
           in case for_each (compare_row F D (eol cfg) tol) rows st0 of
                Inl e \<Rightarrow> Inl e
              | Inr st \<Rightarrow>
                  Inr \<lparr>report = results st,
                       compare_log = c_log st @
                         [''--- COMPARE END (match='' @ str_nat (match_count st) @
                          '', mismatch='' @ str_nat (mismatch_count st) @
                          '', read_fail='' @ str_nat (read_fail_count st) @
                          '', skipped='' @ str_nat (cmp_skip_count st) @
                          '', total='' @ str_nat (length (results st)) @ '') ---\<newline>''],
                       cmp_match = match_count st, cmp_mismatch = mismatch_count st,
                       cmp_read_fail = read_fail_count st, cmp_skipped = cmp_skip_count st,
                       cmp_total = length (results st), compare_port = c_port st\<rparr>))"

subsection \<open>Restore (restore\_from\_csv)\<close>

record 'd restore_state =
  r_port :: "'d port"
  r_log :: "string list"
  failures :: nat
  skip_count :: nat
  dry_count :: nat
  write_count :: nat
  bad_verify_count :: nat
  write_fail_count :: nat

definition status_line :: "string \<Rightarrow> string \<Rightarrow> string \<Rightarrow> string \<Rightarrow> string \<Rightarrow> string" where
  "status_line tag k full v verify =
     tag @ '' '' @ k @ '' | '' @ full @ '' | expected='' @ v @ '' verify='' @ verify @ ''\<newline>''"

text \<open>
  The body of the \<open>try\<close> statement (lines 296--322). It returns the exception it raised, if
  any, with the state reached when it was raised.
\<close>

definition restore_try ::
  "'f float_ops \<Rightarrow> 'd device \<Rightarrow> string \<Rightarrow> bool \<Rightarrow> row \<Rightarrow> string \<Rightarrow> string \<Rightarrow> string
     \<Rightarrow> 'd restore_state \<Rightarrow> (exn + unit) \<times> 'd restore_state" where
  "restore_try F D eol' dry_run r k v full st =
     (if dry_run
      then (Inr (), st\<lparr>dry_count := dry_count st + 1,
                      r_log := r_log st @ [''[DRY ] '' @ k @ '' | '' @ full @ ''\<newline>'']\<rparr>)
      else
        (case send_cmd D full eol' (r_port st) of
           (Inl e, s1) \<Rightarrow> (Inl e, st\<lparr>r_port := s1\<rparr>)
         | (Inr _, s1) \<Rightarrow>
             (let st1 = st\<lparr>r_port := s1, write_count := write_count st + 1\<rparr>;
                  cr = strip (cmd_read r)
              in if cr \<noteq> []
                 then
                   (case try_query D cr eol' s1 of
                      (Inl e, s2) \<Rightarrow> (Inl e, st1\<lparr>r_port := s2\<rparr>)
                    | (Inr (ok2, verify), s2) \<Rightarrow>
                        (let st2 = st1\<lparr>r_port := s2\<rparr>
                         in if ok2
                            then
                              (case compare_values F v (strip verify) (f_zero F) of
                                 Inl e \<Rightarrow> (Inl e, st2)
                               | Inr (is_match, _) \<Rightarrow>
                                   if \<not> is_match
                                   then (Inr (),
                                         st2\<lparr>bad_verify_count := bad_verify_count st2 + 1,
                                             failures := failures st2 + 1,
                                             r_log := r_log st2 @
                                               [status_line ''[BAD ]'' k full v (strip verify)]\<rparr>)
                                   else (Inr (),
                                         st2\<lparr>r_log := r_log st2 @
                                               [status_line ''[ OK ]'' k full v (strip verify)]\<rparr>))
                            else (Inr (),
                                  st2\<lparr>r_log := r_log st2 @
                                        [status_line ''[ OK ]'' k full v ''(no response)'']\<rparr>)))
                 else (Inr (), st1\<lparr>r_log := r_log st1 @
                                       [status_line ''[ OK ]'' k full v []]\<rparr>))))"

text \<open>
  One iteration of the loop (lines 268--327). The command is built outside the \<open>try\<close>,
  so its \<open>IndexError\<close> leaves the loop; \<open>except Exception\<close> handles whatever the body raises.
\<close>

definition restore_row ::
  "'f float_ops \<Rightarrow> 'd device \<Rightarrow> string \<Rightarrow> bool \<Rightarrow> row \<Rightarrow> 'd restore_state
     \<Rightarrow> exn + 'd restore_state" where
  "restore_row F D eol' dry_run r st =
     (let k = strip (key r); cw = strip (cmd_write r); v = strip (val r)
      in if cw = [] \<or> v = []
         then Inr (st\<lparr>skip_count := skip_count st + 1,
                r_log := r_log st @
                  [''[SKIP] '' @ k @ '' | cmd_write='' @ [CHR 0x27] @ cw @ [CHR 0x27] @
                   '' value='' @ [CHR 0x27] @ v @ [CHR 0x27] @ ''\<newline>'']\<rparr>)
         else
           (case full_cmd cw v of
              Inl e \<Rightarrow> Inl e
            | Inr full \<Rightarrow>
                (case restore_try F D eol' dry_run r k v full st of
                   (Inr _, st') \<Rightarrow> Inr st'
                 | (Inl e, st') \<Rightarrow>
                     Inr (st'\<lparr>write_fail_count := write_fail_count st' + 1,
                            failures := failures st' + 1,
                            r_log := r_log st' @
                              [''[FAIL] '' @ k @ '' | '' @ full @ '' | error='' @ exn_msg e @
                               ''\<newline>'']\<rparr>))))"

record 'd restore_result =
  rst_total :: nat
  rst_skipped :: nat
  rst_dry_run :: nat
  rst_writes :: nat
  rst_bad_verify :: nat
  rst_write_fail :: nat
  rst_failures :: nat
  restore_log :: "string list"
  restore_port :: "'d port"

definition restore_from_csv ::
  "'f float_ops \<Rightarrow> 'd device \<Rightarrow> SerialCfg \<Rightarrow> string \<Rightarrow> row list \<Rightarrow> bool \<Rightarrow> 'd port
     \<Rightarrow> exn + 'd restore_result" where
  "restore_from_csv F D cfg now rows dry_run s =
     (case try_query D ''*IDN?'' (eol cfg) s of
        (Inl e, s1) \<Rightarrow> Inl e
      | (Inr (ok, idn), s1) \<Rightarrow>
          (let st0 = \<lparr>r_port = s1,
                      r_log = [''\<newline>--- RESTORE START '' @ now @ '' | dry_run='' @
                               (if dry_run then ''True'' else ''False'') @ '' ---\<newline>'',
                               info_line ok idn],
                      failures = 0, skip_count = 0, dry_count = 0, write_count = 0,
                      bad_verify_count = 0, write_fail_count = 0\<rparr>
           in case for_each (restore_row F D (eol cfg) dry_run) rows st0 of
                Inl e \<Rightarrow> Inl e
              | Inr st \<Rightarrow>
                  Inr \<lparr>rst_total = length rows, rst_skipped = skip_count st,
                       rst_dry_run = dry_count st, rst_writes = write_count st,
                       rst_bad_verify = bad_verify_count st,
                       rst_write_fail = write_fail_count st, rst_failures = failures st,
                       restore_log = r_log st @
                         (if failures st > 0
                          then [''--- Write failure detected.  Check CAL jumper enabled? ---\<newline>'']
                          else []) @
                         [''--- RESTORE END (failures='' @ str_nat (failures st) @ '') ---\<newline>''],
                       restore_port = r_port st\<rparr>))"

subsection \<open>Notions used to state the properties\<close>

text \<open>The catalog entry a snapshot row was made from: the row without its value.\<close>

definition descriptor :: "row \<Rightarrow> item" where
  "descriptor r = \<lparr>key = key r, cmd_read = cmd_read r, cmd_write = cmd_write r,
                   scope = scope r, notes = notes r\<rparr>"

text \<open>What a run of queries leaves on the wire: one exchange per command, in order.\<close>

fun exchanges :: "string \<Rightarrow> string list \<Rightarrow> string list \<Rightarrow> wire_event list" where
  "exchanges e (cmd # cmds) (raw # raws) = query_exchange cmd e raw @ exchanges e cmds raws"
| "exchanges e cmds raws = []"

text \<open>The text of a line read from the port, as \<open>read_line\<close> returns it.\<close>

definition line_text :: "string \<Rightarrow> string" where
  "line_text raw = strip (decode_ascii raw)"

subsection \<open>The compare report, in the words of the specification\<close>

text \<open>A row is skipped when it has no read command or no expected value, after trimming.\<close>

definition cmp_skippable :: "row \<Rightarrow> bool" where
  "cmp_skippable r \<longleftrightarrow> strip (cmd_read r) = [] \<or> strip (val r) = []"

definition spec_skipped :: "row \<Rightarrow> result" where
  "spec_skipped r =
     \<lparr>res_key = strip (key r), res_cmd_read = strip (cmd_read r), expected = strip (val r),
      actual = [], status = ''skipped'', delta = [], res_notes = strip (notes r)\<rparr>"

text \<open>The comparator's answer on a pair it accepts (it raises on no pair of a finished run).\<close>

definition verdict :: "'f float_ops \<Rightarrow> string \<Rightarrow> string \<Rightarrow> 'f \<Rightarrow> bool \<times> string" where
  "verdict F e a tol = (case compare_values F e a tol of Inr v \<Rightarrow> v | Inl x \<Rightarrow> (False, []))"

text \<open>
  The report row of a re-queried row, given the text \<open>resp\<close> of the live response:
  \<open>read_fail\<close> on an empty response, otherwise \<open>match\<close> or \<open>mismatch\<close> by the comparator.
\<close>

definition spec_queried :: "'f float_ops \<Rightarrow> 'f \<Rightarrow> row \<Rightarrow> string \<Rightarrow> result" where
  "spec_queried F tol r resp =
     \<lparr>res_key = strip (key r), res_cmd_read = strip (cmd_read r), expected = strip (val r),
      actual = resp,
      status = (if resp = [] then ''read_fail''
                else if fst (verdict F (strip (val r)) resp tol) then ''match''
                else ''mismatch''),
      delta = (if resp = [] then [] else snd (verdict F (strip (val r)) resp tol)),
      res_notes = strip (notes r)\<rparr>"

text \<open>One report row per snapshot row; the responses are those of the rows not skipped.\<close>

fun spec_report :: "'f float_ops \<Rightarrow> 'f \<Rightarrow> row list \<Rightarrow> string list \<Rightarrow> result list" where
  "spec_report F tol [] resps = []"
| "spec_report F tol (r # rs) resps =
     (if cmp_skippable r then spec_skipped r # spec_report F tol rs resps
      else (case resps of
              [] \<Rightarrow> []
            | resp # resps' \<Rightarrow> spec_queried F tol r resp # spec_report F tol rs resps'))"

definition queried_rows :: "row list \<Rightarrow> row list" where
  "queried_rows rows = filter (\<lambda>r. \<not> cmp_skippable r) rows"

definition count_status :: "string \<Rightarrow> result list \<Rightarrow> nat" where
  "count_status tag rs = length (filter (\<lambda>x. status x = tag) rs)"

text \<open>A tolerance that \<open>math.isclose\<close> accepts: it raises on no pair of numbers.\<close>

definition isclose_accepts :: "'f float_ops \<Rightarrow> 'f \<Rightarrow> bool" where
  "isclose_accepts F tol \<longleftrightarrow> (\<forall>x y. \<exists>c. isclose F x y tol tol = Inr c)"

subsection \<open>Restore: skipped rows and log lines\<close>

text \<open>A row is not replayed when it has no write command or no value, after trimming.\<close>

definition rst_skippable :: "row \<Rightarrow> bool" where
  "rst_skippable r \<longleftrightarrow> strip (cmd_write r) = [] \<or> strip (val r) = []"

definition skip_line :: "row \<Rightarrow> string" where
  "skip_line r =
     ''[SKIP] '' @ strip (key r) @ '' | cmd_write='' @ [CHR 0x27] @ strip (cmd_write r) @
     [CHR 0x27] @ '' value='' @ [CHR 0x27] @ strip (val r) @ [CHR 0x27] @ ''\<newline>''"

definition fail_line :: "row \<Rightarrow> string \<Rightarrow> exn \<Rightarrow> string" where
  "fail_line r full x =
     ''[FAIL] '' @ strip (key r) @ '' | '' @ full @ '' | error='' @ exn_msg x @ ''\<newline>''"

text \<open>The write command of a row; empty when the template has no segment to build it from.\<close>

definition row_cmd :: "row \<Rightarrow> string" where
  "row_cmd r =
     (case full_cmd (strip (cmd_write r)) (strip (val r)) of Inr full \<Rightarrow> full | Inl x \<Rightarrow> [])"

text \<open>What a dry run logs for a row: that it is skipped, or the command it would send.\<close>

definition dry_run_line :: "row \<Rightarrow> string" where
  "dry_run_line r =
     (if rst_skippable r then skip_line r
      else ''[DRY ] '' @ strip (key r) @ '' | '' @ row_cmd r @ ''\<newline>'')"

text \<open>A row whose command can be built: it is skipped, or its template has a segment.\<close>

definition buildable :: "row \<Rightarrow> bool" where
  "buildable r \<longleftrightarrow> rst_skippable r \<or> parts_of (strip (cmd_write r)) \<noteq> []"

text \<open>The first and the last lines of the restore log, and the state the loop starts in.\<close>

definition restore_start :: "string \<Rightarrow> bool \<Rightarrow> string" where
  "restore_start now dry =
     ''\<newline>--- RESTORE START '' @ now @ '' | dry_run='' @
     (if dry then ''True'' else ''False'') @ '' ---\<newline>''"

definition restore_end :: "nat \<Rightarrow> string list" where
  "restore_end n =
     (if n > 0 then [''--- Write failure detected.  Check CAL jumper enabled? ---\<newline>'']
      else []) @
     [''--- RESTORE END (failures='' @ str_nat n @ '') ---\<newline>'']"

definition restore_init :: "'d port \<Rightarrow> string list \<Rightarrow> 'd restore_state" where
  "restore_init s lg =
     \<lparr>r_port = s, r_log = lg, failures = 0, skip_count = 0, dry_count = 0, write_count = 0,
      bad_verify_count = 0, write_fail_count = 0\<rparr>"


subsection \<open>Dump: the responses of the instrument\<close>

text \<open>
  Querying a list of commands in order on a port: the text of each response, and the port
  afterwards. The first exception ends the run.
\<close>

fun query_all ::
  "'d device \<Rightarrow> string \<Rightarrow> string list \<Rightarrow> 'd port \<Rightarrow> exn + (string list \<times> 'd port)" where
  "query_all D e [] s = Inr ([], s)"
| "query_all D e (c # cs) s =
     (case try_query D c e s of
        (Inl x, s') \<Rightarrow> Inl x
      | (Inr (ok, v), s') \<Rightarrow>
          (case query_all D e cs s' of
             Inl x \<Rightarrow> Inl x
           | Inr (vs, s'') \<Rightarrow> Inr (v # vs, s'')))"

text \<open>The log line of a dumped entry, given the text of its response.\<close>

definition dump_line :: "item \<Rightarrow> string \<Rightarrow> string" where
  "dump_line it v =
     (if v \<noteq> [] then ''[ OK ] '' @ key it @ '' | '' @ cmd_read it @ '' -> '' @ v @ ''\<newline>''
      else ''[FAIL] '' @ key it @ '' | '' @ cmd_read it @ '' -> (no response)\<newline>'')"

subsection \<open>Computations that return\<close>

definition succeeds :: "('d, 'a) io \<Rightarrow> bool" where
  "succeeds m \<longleftrightarrow> (\<forall>s. \<exists>a s'. m s = (Inr a, s'))"

subsection \<open>Concrete instances for the examples\<close>

text \<open>
  A bench instrument: its state is the command line it was last sent, which the next
  \<open>readline\<close> answers. It knows its identity, the frequency correction and amplitude calbyte
  5, and leaves every other query unanswered (a timeout).
\<close>

definition bench_reply :: "string \<Rightarrow> string" where
  "bench_reply line =
     (if line = ''*IDN?\<newline>'' then ''StanfordResearchSystems,SR720\<newline>''
      else if line = ''$FRQ?\<newline>'' then ''12\<newline>''
      else if line = ''$CBT? 5\<newline>'' then ''200\<newline>''
      else [])"

definition bench :: "string device" where
  "bench = \<lparr>dev_write = (\<lambda>b d. (None, if b = ''\<newline>'' then d else b)),
            dev_flush = (\<lambda>d. (None, d)),
            dev_reset_input_buffer = (\<lambda>d. (None, d)),
            dev_readline = (\<lambda>d. (Inr (bench_reply d), []))\<rparr>"

text \<open>The same instrument on a port whose write of \<open>$RND 2\<close> times out.\<close>

definition flaky :: "string device" where
  "flaky = bench\<lparr>dev_write :=
             (\<lambda>b d. if b = ''$RND 2\<newline>'' then (Some (SerialException ''Write timeout''), d)
                    else dev_write bench b d)\<rparr>"

definition port0 :: "string port" where
  "port0 = \<lparr>dev_state = [], wire = []\<rparr>"

definition cfg0 :: SerialCfg where
  "cfg0 = \<lparr>port_name = ''COM5'', baud = 9600, bytesize = 8, parity = ''N'', stopbits = 1,
           eol = ''\<newline>''\<rparr>"

text \<open>
  A float library for the examples, on whole numbers only: it agrees with CPython on the
  unsigned decimal numerals below \<open>10^12\<close> that the examples use, and reads nothing else as
  a number. It stands for no part of the source.
\<close>

definition whole_floats :: "int float_ops" where
  "whole_floats =
     \<lparr>float_of_str = (\<lambda>s. if s \<noteq> [] \<and> list_all (\<lambda>c. c \<in> set ''0123456789'') s
                           then Some (int (digits_value s)) else None),
      f_sub = (\<lambda>a b. a - b),
      isclose = (\<lambda>a b rel_tol abs_tol.
                   if rel_tol < 0 \<or> abs_tol < 0
                   then Inl (ValueError ''tolerances must be non-negative'')
                   else Inr (a = b \<or> \<bar>b - a\<bar> \<le> \<bar>rel_tol * b\<bar> \<or> \<bar>b - a\<bar> \<le> \<bar>rel_tol * a\<bar>
                             \<or> \<bar>b - a\<bar> \<le> abs_tol)),
      fmt_12g = (\<lambda>x. (if x < 0 then ''-'' else []) @ str_nat (nat \<bar>x\<bar>)),
      f_zero = 0,
      f_str = (\<lambda>x. (if x < 0 then ''-'' else []) @ str_nat (nat \<bar>x\<bar>) @ ''.0'')\<rparr>"

text \<open>
  A snapshot of three rows: the frequency correction with its value, amplitude calbyte 5
  with no value, and the rounding mode, whose query the bench instrument leaves unanswered.
\<close>

definition three_rows :: "row list" where
  "three_rows = [row_of frq_item ''12'', row_of (cbt_item 5) [], row_of rnd_item ''1'']"

definition now0 :: string where
  "now0 = ''Wed Nov  4 12:00:00 2026''"

text \<open>The state a restore loop starts in, on the fresh port and with an empty log.\<close>

definition st0 :: "string restore_state" where
  "st0 = restore_init port0 []"

text \<open>What the bench instrument answers to the read command of a catalog entry.\<close>

definition bench_value :: "item \<Rightarrow> string" where
  "bench_value it = line_text (bench_reply (cmd_read it @ ''\<newline>''))"

section \<open>Properties\<close>

subsection \<open>Strings\<close>

lemma strip_last_nonspace: "strip s \<noteq> [] \<Longrightarrow> \<not> isspace (last (strip s))"
  unfolding strip_def rstrip_def lstrip_def
  by (metis (no_types, lifting) hd_dropWhile last_rev rev_is_Nil_conv)

lemma strip_eq_Nil_iff: "strip s = [] \<longleftrightarrow> (\<forall>c\<in>set s. isspace c)"
proof
  assume "strip s = []"
  then have a: "\<forall>c\<in>set (dropWhile isspace s). isspace c"
    unfolding strip_def rstrip_def lstrip_def by simp
  have "set s = set (takeWhile isspace s) \<union> set (dropWhile isspace s)"
    by (metis set_append takeWhile_dropWhile_id)
  then show "\<forall>c\<in>set s. isspace c" using a by (auto dest: set_takeWhileD)
next
  assume "\<forall>c\<in>set s. isspace c"
  then show "strip s = []"
    unfolding strip_def rstrip_def lstrip_def
    by (auto dest: set_dropWhileD)
qed

lemma strip_id:
  assumes "s \<noteq> []" "\<not> isspace (hd s)" "\<not> isspace (last s)"
  shows "strip s = s"
proof -
  have dw: "dropWhile isspace xs = xs" if "xs \<noteq> []" "\<not> isspace (hd xs)" for xs
    using that by (cases xs) auto
  have l: "dropWhile isspace s = s" using assms by (intro dw)
  have r: "dropWhile isspace (rev s) = rev s" using assms by (intro dw) (simp_all add: hd_rev)
  show ?thesis unfolding strip_def rstrip_def lstrip_def l r by simp
qed

lemma startswith_split: "startswith t (p @ [c]) \<Longrightarrow> \<exists>rest. t = p @ c # rest"
  unfolding startswith_def
  by (metis append_take_drop_id append.assoc append_Cons append_Nil)

lemma split_sep_append: "c \<notin> set a \<Longrightarrow> split_sep c (a @ c # b) = a # split_sep c b"
  by (induction a) auto

lemma split_sep_nosep: "c \<notin> set a \<Longrightarrow> split_sep c a = [a]"
  by (induction a) auto

lemma str_nat_digits: "str_nat n \<noteq> [] \<and> set (str_nat n) \<subseteq> set ''0123456789''"
proof (induction n rule: str_nat.induct)
  case (1 n)
  have d: "''0123456789'' ! k \<in> set ''0123456789''" if "k < 10" for k
    using that nth_mem[of k "''0123456789''"] by simp
  show ?case
  proof (cases "n < 10")
    case True
    then show ?thesis using d[of n] by (subst str_nat.simps, subst (2) str_nat.simps) simp
  next
    case False
    then show ?thesis using 1 d[of "n mod 10"]
      by (subst str_nat.simps, subst (2) str_nat.simps) simp
  qed
qed

lemma str_nat_nonempty [simp]: "str_nat n \<noteq> []"
  using str_nat_digits by blast

lemma str_nat_chars: "c \<in> set (str_nat n) \<Longrightarrow> \<not> isspace c \<and> c \<noteq> CHR '';''"
  using str_nat_digits[of n] by (auto simp: isspace_def)

subsection \<open>The value goes to the last segment of a write command\<close>

text \<open>
  A segment that starts with a word and a space, and does not end in whitespace, always has
  an index after the word: the branch of the source for an index-less \<open>$CBT\<close> or \<open>$CFT\<close>
  is never taken on a trimmed segment.
\<close>

lemma indexed_target_has_index:
  assumes pre: "t = p @ CHR '' '' # rest" and p: "\<forall>c\<in>set p. \<not> isspace c" "p \<noteq> []"
    and lst: "\<not> isspace (last t)"
  shows "length (split_ws1 t) > 1 \<and> strip (split_ws1 t ! 1) \<noteq> []"
proof -
  have sp: "isspace CHR '' ''" by (simp add: isspace_def)
  from pre lst sp have rest: "rest \<noteq> []" "\<not> isspace (last rest)"
    by (auto split: if_splits)
  then have ex: "\<exists>c\<in>set rest. \<not> isspace c" using last_in_set by blast
  have d1: "dropWhile isspace t = t" using pre p by (cases p) auto
  have tw: "takeWhile (\<lambda>c. \<not> isspace c) t = p"
    using pre p sp by simp
  have dw: "dropWhile (\<lambda>c. \<not> isspace c) t = CHR '' '' # rest"
    using pre p sp by simp
  have r2: "dropWhile isspace (CHR '' '' # rest) = dropWhile isspace rest" using sp by simp
  have ne: "dropWhile isspace rest \<noteq> []" using ex by simp
  have sw: "split_ws1 t = [p, dropWhile isspace rest]"
    using pre p ne unfolding split_ws1_def d1 Let_def tw dw r2 by auto
  have "\<exists>c\<in>set (dropWhile isspace rest). \<not> isspace c"
    using ne hd_dropWhile[of isspace rest] hd_in_set by blast
  then show ?thesis using sw by (simp add: strip_eq_Nil_iff)
qed

lemma last_parts_stripped:
  assumes "parts_of (strip c) \<noteq> []"
  shows "\<exists>x. last (parts_of (strip c)) = strip x"
  using assms unfolding parts_of_def by (auto simp: last_map split: if_splits)

lemma full_cmd_general:
  assumes ne: "parts_of (strip c) \<noteq> []"
  shows "full_cmd (strip c) v =
    Inr (join '';'' (butlast (parts_of (strip c)) @
                    [last (parts_of (strip c)) @ spec_separator (last (parts_of (strip c))) @ v]))"
proof -
  let ?t = "last (parts_of (strip c))"
  obtain x where x: "?t = strip x" using last_parts_stripped[OF ne] by blast
  have idx: "length (split_ws1 ?t) > 1 \<and> strip (split_ws1 ?t ! 1) \<noteq> []"
    if sw: "startswith ?t (p @ '' '')" and p: "\<forall>c\<in>set p. \<not> isspace c" "p \<noteq> []" for p
  proof -
    from startswith_split[of ?t p "CHR '' ''"] sw
    obtain rest where r: "?t = p @ CHR '' '' # rest" by auto
    then have "strip x \<noteq> []" using x by auto
    then have "\<not> isspace (last ?t)" using strip_last_nonspace x by simp
    then show ?thesis using indexed_target_has_index[OF r p] by blast
  qed
  have i1: "startswith ?t ''$CBT '' \<Longrightarrow>
      length (split_ws1 ?t) > 1 \<and> strip (split_ws1 ?t ! 1) \<noteq> []"
    using idx[of "''$CBT''"] by (simp add: isspace_def)
  have i2: "startswith ?t ''$CFT '' \<Longrightarrow>
      length (split_ws1 ?t) > 1 \<and> strip (split_ws1 ?t ! 1) \<noteq> []"
    using idx[of "''$CFT''"] by (simp add: isspace_def)
  show ?thesis using ne i1 i2 unfolding full_cmd_def Let_def spec_separator_def by auto
qed

lemma full_cmd_indexed:
  assumes p: "\<forall>c\<in>set p. \<not> isspace c \<and> c \<noteq> CHR '';''" "p \<noteq> []"
    and sw: "startswith (p @ '' '' @ str_nat i) ''$CBT '' \<or>
             startswith (p @ '' '' @ str_nat i) ''$CFT ''"
  shows "full_cmd (p @ '' '' @ str_nat i) v = Inr (p @ '' '' @ str_nat i @ '','' @ v)"
proof -
  let ?t = "p @ '' '' @ str_nat i"
  have nosemi: "CHR '';'' \<notin> set ?t" using p str_nat_chars by auto
  have parts: "parts_of ?t = [?t]" using nosemi unfolding parts_of_def by simp
  have "\<not> isspace (last ?t)" using str_nat_chars[of "last (str_nat i)" i] by simp
  then have "length (split_ws1 ?t) > 1 \<and> strip (split_ws1 ?t ! 1) \<noteq> []"
    using indexed_target_has_index[of ?t p "str_nat i"] p by simp
  then show ?thesis using sw unfolding full_cmd_def parts Let_def by simp
qed

lemma full_cmd_CBT:
  "full_cmd (''$CBT '' @ str_nat i) v = Inr (''$CBT '' @ str_nat i @ '','' @ v)"
  using full_cmd_indexed[of "''$CBT''" i v] by (simp add: startswith_def isspace_def)

lemma full_cmd_CFT:
  "full_cmd (''$CFT '' @ str_nat i) v = Inr (''$CFT '' @ str_nat i @ '','' @ v)"
  using full_cmd_indexed[of "''$CFT''" i v] by (simp add: startswith_def isspace_def)

lemma full_cmd_ranged:
  assumes q: "CHR '';'' \<notin> set q" "q \<noteq> []" "\<not> isspace (hd q)" "\<not> isspace (last q)"
    "\<not> startswith q ''$CBT ''" "\<not> startswith q ''$CFT ''"
  shows "full_cmd (''$CRN '' @ str_nat r @ '';'' @ q) v =
         Inr (''$CRN '' @ str_nat r @ '';'' @ q @ '' '' @ v)"
proof -
  let ?a = "''$CRN '' @ str_nat r"
  have a: "CHR '';'' \<notin> set ?a" using str_nat_chars by auto
  have sa: "strip ?a = ?a" using str_nat_chars[of "last (str_nat r)" r]
    by (intro strip_id) (simp_all add: isspace_def)
  have sq: "strip q = q" using q by (intro strip_id)
  have "split_sep CHR '';'' (?a @ CHR '';'' # q) = [?a, q]"
    using split_sep_append[OF a, of q] split_sep_nosep[OF q(1)] by simp
  then have parts: "parts_of (?a @ '';'' @ q) = [?a, q]"
    unfolding parts_of_def using sa sq q(2) by simp
  show ?thesis using parts q(5,6) unfolding full_cmd_def Let_def by simp
qed

lemma full_cmd_CMJ:
  "full_cmd (''$CRN '' @ str_nat r @ '';$CMJ'') v = Inr (''$CRN '' @ str_nat r @ '';$CMJ '' @ v)"
  using full_cmd_ranged[of "''$CMJ''" r v] by (simp add: startswith_def isspace_def)

lemma full_cmd_CMN:
  "full_cmd (''$CRN '' @ str_nat r @ '';$CMN'') v = Inr (''$CRN '' @ str_nat r @ '';$CMN '' @ v)"
  using full_cmd_ranged[of "''$CMN''" r v] by (simp add: startswith_def isspace_def)

text \<open>
  Claim C1. Restore builds the write command of a row from its trimmed template \<open>strip c\<close>
  and its value \<open>v\<close>. Whenever the template has a segment at all, the command is the
  segments joined by semicolons, every segment but the last as it is, and the last one
  followed by the separator of the instrument grammar (a comma after the index of a
  \<open>$CBT i\<close> or \<open>$CFT i\<close> write, a space otherwise) and the value. In particular, for every
  index \<open>i\<close>, range \<open>r\<close> and value \<open>v\<close>, the catalog templates give \<open>$CBT i,v\<close>, \<open>$CFT i,v\<close>,
  \<open>$CRN r;$CMJ v\<close> and \<open>$CRN r;$CMN v\<close>.
\<close>

theorem full_cmd_value_on_last_segment:
  "(parts_of (strip c) \<noteq> [] \<longrightarrow>
      full_cmd (strip c) v =
        Inr (join '';'' (butlast (parts_of (strip c)) @
               [last (parts_of (strip c)) @ spec_separator (last (parts_of (strip c))) @ v])))
   \<and> full_cmd (''$CBT '' @ str_nat i) v = Inr (''$CBT '' @ str_nat i @ '','' @ v)
   \<and> full_cmd (''$CFT '' @ str_nat i) v = Inr (''$CFT '' @ str_nat i @ '','' @ v)
   \<and> full_cmd (''$CRN '' @ str_nat r @ '';$CMJ'') v = Inr (''$CRN '' @ str_nat r @ '';$CMJ '' @ v)
   \<and> full_cmd (''$CRN '' @ str_nat r @ '';$CMN'') v = Inr (''$CRN '' @ str_nat r @ '';$CMN '' @ v)"
  using full_cmd_general[of c v] full_cmd_CBT[of i v] full_cmd_CFT[of i v]
    full_cmd_CMJ[of r v] full_cmd_CMN[of r v]
  by blast

theorem full_cmd_value_on_last_segment_witness:
  "parts_of (strip '' $CRN 2 ; $CMJ '') \<noteq> [] \<and>
   full_cmd (strip '' $CRN 2 ; $CMJ '') ''100.5'' = Inr ''$CRN 2;$CMJ 100.5'' \<and>
   full_cmd (''$CBT '' @ str_nat 5) ''100.5'' = Inr ''$CBT 5,100.5''"
  using full_cmd_value_on_last_segment[of "'' $CRN 2 ; $CMJ ''" "''100.5''" 5 2]
  by (simp add: parts_of_def strip_def lstrip_def rstrip_def isspace_def spec_separator_def
      startswith_def str_nat.simps)

subsection \<open>Queries on the wire\<close>

lemma io_bind_Inr:
  "io_bind m f s = (Inr b, s') \<longleftrightarrow> (\<exists>a s1. m s = (Inr a, s1) \<and> f a s1 = (Inr b, s'))"
  by (cases "m s") (auto simp: io_bind_def split: sum.splits)

lemma ser_write_Inr: "ser_write D b s = (Inr u, s') \<Longrightarrow> wire s' = wire s @ [Sent b]"
  by (auto simp: ser_write_def split: prod.splits option.splits)

lemma ser_flush_Inr: "ser_flush D s = (Inr u, s') \<Longrightarrow> wire s' = wire s"
  by (auto simp: ser_flush_def split: prod.splits option.splits)

lemma ser_reset_Inr: "ser_reset_input_buffer D s = (Inr u, s') \<Longrightarrow> wire s' = wire s"
  by (auto simp: ser_reset_input_buffer_def split: prod.splits option.splits)

lemma ser_readline_Inr:
  "ser_readline D s = (Inr raw, s') \<Longrightarrow> wire s' = wire s @ [Received raw]"
  by (auto simp: ser_readline_def split: prod.splits sum.splits)

lemma clear_com_buffer_Inr:
  "clear_com_buffer D s = (Inr u, s') \<Longrightarrow> wire s' = wire s @ [Sent ''\<newline>'']"
  unfolding clear_com_buffer_def io_bind_Inr
  by (auto dest!: ser_write_Inr ser_flush_Inr)

lemma send_cmd_Inr:
  "send_cmd D cmd e s = (Inr u, s') \<Longrightarrow>
   wire s' = wire s @ [Sent ''\<newline>'', Sent (encode_ascii (cmd @ e))]"
  unfolding send_cmd_def io_bind_Inr
  by (auto dest!: ser_write_Inr ser_flush_Inr clear_com_buffer_Inr)

lemma read_line_Inr:
  "read_line D s = (Inr resp, s') \<Longrightarrow>
   \<exists>raw. wire s' = wire s @ [Sent ''\<newline>'', Received raw] \<and> resp = strip (decode_ascii raw)"
  unfolding read_line_def io_bind_Inr io_return_def
  by (auto dest!: ser_readline_Inr clear_com_buffer_Inr
      simp: strip_def lstrip_def rstrip_def decode_ascii_def)

lemma query_Inr:
  "query D cmd e s = (Inr resp, s') \<Longrightarrow>
   \<exists>raw. wire s' = wire s @ query_exchange cmd e raw \<and> resp = strip (decode_ascii raw)"
  unfolding query_def io_bind_Inr query_exchange_def
  by (auto dest!: ser_reset_Inr send_cmd_Inr read_line_Inr)

lemma try_query_Inr:
  assumes "try_query D cmd e s = (Inr (ok, resp), s')"
  shows "(ok \<longleftrightarrow> resp \<noteq> []) \<and>
         (\<exists>raw. wire s' = wire s @ query_exchange cmd e raw \<and> resp = strip (decode_ascii raw))"
  using assms unfolding try_query_def io_bind_Inr io_return_def
  by (auto dest!: query_Inr split: if_splits)

subsection \<open>A port that never raises answers every query\<close>

lemma succeeds_return: "succeeds (io_return a)"
  by (simp add: succeeds_def io_return_def)

lemma succeeds_bind: "succeeds m \<Longrightarrow> (\<And>a. succeeds (f a)) \<Longrightarrow> succeeds (io_bind m f)"
  unfolding succeeds_def io_bind_def
  by (auto split: prod.splits sum.splits) (metis Inl_Inr_False old.prod.inject)+

lemma succeeds_ser_write: "never_raises D \<Longrightarrow> succeeds (ser_write D b)"
  unfolding succeeds_def never_raises_def ser_write_def
  by (auto split: prod.splits option.splits) (metis fst_conv option.distinct(1))

lemma succeeds_ser_flush: "never_raises D \<Longrightarrow> succeeds (ser_flush D)"
  unfolding succeeds_def never_raises_def ser_flush_def
  by (auto split: prod.splits option.splits) (metis fst_conv option.distinct(1))

lemma succeeds_ser_reset: "never_raises D \<Longrightarrow> succeeds (ser_reset_input_buffer D)"
  unfolding succeeds_def never_raises_def ser_reset_input_buffer_def
  by (auto split: prod.splits option.splits) (metis fst_conv option.distinct(1))

lemma succeeds_ser_readline: "never_raises D \<Longrightarrow> succeeds (ser_readline D)"
  unfolding succeeds_def never_raises_def ser_readline_def
  by (auto split: prod.splits sum.splits) (metis fst_conv sum.distinct(1))

lemma succeeds_clear_com_buffer: "never_raises D \<Longrightarrow> succeeds (clear_com_buffer D)"
  unfolding clear_com_buffer_def
  by (intro succeeds_bind succeeds_ser_write succeeds_ser_flush)

lemma succeeds_send_cmd: "never_raises D \<Longrightarrow> succeeds (send_cmd D cmd e)"
  unfolding send_cmd_def
  by (intro succeeds_bind succeeds_clear_com_buffer succeeds_ser_write succeeds_ser_flush)

lemma succeeds_read_line: "never_raises D \<Longrightarrow> succeeds (read_line D)"
  unfolding read_line_def
  by (intro succeeds_bind succeeds_clear_com_buffer succeeds_ser_readline succeeds_return)

lemma succeeds_query: "never_raises D \<Longrightarrow> succeeds (query D cmd e)"
  unfolding query_def
  by (intro succeeds_bind succeeds_ser_reset succeeds_send_cmd succeeds_read_line)

lemma succeeds_try_query: "never_raises D \<Longrightarrow> succeeds (try_query D cmd e)"
  unfolding try_query_def
  by (intro succeeds_bind succeeds_query succeeds_return)

lemma try_query_total:
  "never_raises D \<Longrightarrow> \<exists>ok resp s'. try_query D cmd e s = (Inr (ok, resp), s')"
  using succeeds_try_query[of D cmd e] unfolding succeeds_def by (metis surj_pair)

lemma never_raises_bench: "never_raises bench"
  by (simp add: never_raises_def bench_def)

text \<open>
  Claim C5. Whenever \<open>try_query\<close> returns \<open>(ok, resp)\<close>, \<open>ok\<close> is false exactly when \<open>resp\<close>
  is empty, and \<open>resp\<close> is the line read from the port in that exchange, decoded and
  trimmed (so a true \<open>ok\<close> comes with that non-empty line and a false \<open>ok\<close> with the empty
  string). On a port that never raises, \<open>try_query\<close> returns for every command.
\<close>

theorem try_query_ok_iff_nonempty:
  "(try_query D cmd e s = (Inr (ok, resp), s') \<longrightarrow>
      (ok \<longleftrightarrow> resp \<noteq> []) \<and>
      (\<exists>raw. wire s' = wire s @ query_exchange cmd e raw \<and> resp = strip (decode_ascii raw)))
   \<and> (never_raises D \<longrightarrow> (\<exists>ok resp s'. try_query D cmd e s = (Inr (ok, resp), s')))"
  using try_query_Inr[of D cmd e s ok resp s'] try_query_total[of D cmd e s] by blast

lemmas port_run_defs = try_query_def query_def read_line_def send_cmd_def clear_com_buffer_def
  io_bind_def io_return_def ser_write_def ser_flush_def ser_readline_def
  ser_reset_input_buffer_def encode_ascii_def decode_ascii_def strip_def lstrip_def rstrip_def
  isspace_def query_exchange_def

lemmas bench_defs = bench_def bench_reply_def port0_def cfg0_def

theorem try_query_ok_iff_nonempty_witness:
  "never_raises bench \<and>
   try_query bench ''$FRQ?'' ''\<newline>'' port0 =
     (Inr (True, ''12''),
      \<lparr>dev_state = [], wire = query_exchange ''$FRQ?'' ''\<newline>'' ''12\<newline>''\<rparr>) \<and>
   ''12'' = strip (decode_ascii ''12\<newline>'')"
proof -
  have run: "try_query bench ''$FRQ?'' ''\<newline>'' port0 =
     (Inr (True, ''12''),
      \<lparr>dev_state = [], wire = query_exchange ''$FRQ?'' ''\<newline>'' ''12\<newline>''\<rparr>)"
    by (simp add: port_run_defs bench_defs)
  from try_query_ok_iff_nonempty[of bench "''$FRQ?''" "''\<newline>''" port0 True "''12''"
      "\<lparr>dev_state = [], wire = query_exchange ''$FRQ?'' ''\<newline>'' ''12\<newline>''\<rparr>"] run
  have "\<exists>raw. query_exchange ''$FRQ?'' ''\<newline>'' ''12\<newline>'' =
              wire port0 @ query_exchange ''$FRQ?'' ''\<newline>'' raw \<and>
              ''12'' = strip (decode_ascii raw)"
    by simp
  then have "''12'' = strip (decode_ascii ''12\<newline>'')"
    by (auto simp: port0_def query_exchange_def)
  with run never_raises_bench show ?thesis by blast
qed

subsection \<open>The catalog\<close>

lemma digits_value_str_nat: "digits_value (str_nat n) = n"
proof (induction n rule: str_nat.induct)
  case (1 n)
  have d: "of_char (''0123456789'' ! k) - 48 = k" if "k < 10" for k :: nat
  proof -
    from that have "k \<in> {0,1,2,3,4,5,6,7,8,9}" by auto
    then show ?thesis by auto
  qed
  show ?case
  proof (cases "n < 10")
    case True
    then show ?thesis using d[of n] by (subst str_nat.simps) (simp add: digits_value_def)
  next
    case False
    then have "digits_value (str_nat (n div 10)) = n div 10" using 1 by simp
    then show ?thesis using False d[of "n mod 10"]
      by (subst str_nat.simps) (simp add: digits_value_def)
  qed
qed

lemma str_nat_inj [simp]: "str_nat n = str_nat m \<longleftrightarrow> n = m"
  by (metis digits_value_str_nat)

lemma ranges_unfolded: "[CRN_MIN..<CRN_MAX + 1] = [0, 1, 2, 3]"
  by (simp add: CRN_MIN_def CRN_MAX_def upt_rec)

lemma build_dump_items_unfolded:
  "build_dump_items =
     [idn_item, frq_item, rnd_item] @ map cbt_item [0..<95] @
     [cmj_item 0, cmn_item 0, cmj_item 1, cmn_item 1, cmj_item 2, cmn_item 2,
      cmj_item 3, cmn_item 3] @ map cft_item [0..<121]"
  unfolding build_dump_items_def ranges_unfolded
  by (simp add: CBT_MIN_I_def CBT_MAX_I_def CFT_MIN_I_def CFT_MAX_I_def)

lemmas item_defs = idn_item_def frq_item_def rnd_item_def cbt_item_def cmj_item_def
  cmn_item_def cft_item_def

lemma keys_distinct: "distinct (map key build_dump_items)"
  unfolding build_dump_items_unfolded
  by (auto simp: item_defs distinct_map inj_on_def)

lemma items_length: "length build_dump_items = 227"
  unfolding build_dump_items_unfolded by simp

lemma cbt_indices: "{i. cbt_item i \<in> set build_dump_items} = {0..94}"
  unfolding build_dump_items_unfolded by (auto simp: item_defs)

lemma cft_indices: "{i. cft_item i \<in> set build_dump_items} = {0..120}"
  unfolding build_dump_items_unfolded by (auto simp: item_defs)

lemma cmj_ranges: "{r. cmj_item r \<in> set build_dump_items} = {0..3}"
  unfolding build_dump_items_unfolded by (auto simp: item_defs)

lemma cmn_ranges: "{r. cmn_item r \<in> set build_dump_items} = {0..3}"
  unfolding build_dump_items_unfolded by (auto simp: item_defs)

lemma cbt_count: "length (filter (\<lambda>it. startswith (key it) ''CBT['') build_dump_items) = 95"
  unfolding build_dump_items_unfolded
  by (simp add: item_defs startswith_def filter_map comp_def)

lemma cft_count: "length (filter (\<lambda>it. startswith (key it) ''CFT['') build_dump_items) = 121"
  unfolding build_dump_items_unfolded
  by (simp add: item_defs startswith_def filter_map comp_def)

text \<open>
  Claim C7. The catalog is a constant: it takes no argument and reads no state, so every
  call yields the same sequence, which is the three global entries, the amplitude entries
  of indices 0 to 94, the major and minor entries of ranges 0 to 3, and the floating-point
  entries of indices 0 to 120, in this order. No two entries share a key; an amplitude
  entry exists exactly for the indices 0..94 (95 entries), a floating-point entry exactly
  for 0..120 (121 entries), and a major and a minor entry exactly for the ranges 0..3.
\<close>

theorem build_dump_items_catalog:
  "build_dump_items =
     [idn_item, frq_item, rnd_item] @ map cbt_item [0..<95] @
     [cmj_item 0, cmn_item 0, cmj_item 1, cmn_item 1, cmj_item 2, cmn_item 2,
      cmj_item 3, cmn_item 3] @ map cft_item [0..<121]
   \<and> distinct (map key build_dump_items)
   \<and> length build_dump_items = 227
   \<and> {i. cbt_item i \<in> set build_dump_items} = {0..94}
   \<and> length (filter (\<lambda>it. startswith (key it) ''CBT['') build_dump_items) = 95
   \<and> {i. cft_item i \<in> set build_dump_items} = {0..120}
   \<and> length (filter (\<lambda>it. startswith (key it) ''CFT['') build_dump_items) = 121
   \<and> {r. cmj_item r \<in> set build_dump_items} = {0..3}
   \<and> {r. cmn_item r \<in> set build_dump_items} = {0..3}"
  using build_dump_items_unfolded keys_distinct items_length cbt_indices cbt_count
    cft_indices cft_count cmj_ranges cmn_ranges
  by blast

subsection \<open>Dump\<close>

lemma for_each_total:
  assumes "\<And>x st. \<exists>st'. body x st = Inr st'"
  shows "\<exists>st'. for_each body xs st = Inr st'"
proof (induction xs arbitrary: st)
  case Nil
  show ?case by simp
next
  case (Cons x xs)
  from assms obtain st1 where "body x st = Inr st1" by blast
  with Cons show ?case by simp
qed

lemma dump_item_Inr:
  assumes "dump_item D e it st = Inr st'"
  shows "\<exists>raw. wire (d_port st') = wire (d_port st) @ query_exchange (cmd_read it) e raw
           \<and> d_rows st' = d_rows st @ [row_of it (line_text raw)]
           \<and> ok_count st' = ok_count st + (if line_text raw \<noteq> [] then 1 else 0)
           \<and> fail_count st' = fail_count st + (if line_text raw = [] then 1 else 0)"
proof -
  from assms obtain ok v s' where q: "try_query D (cmd_read it) e (d_port st) = (Inr (ok, v), s')"
    unfolding dump_item_def by (auto split: prod.splits sum.splits)
  from try_query_Inr[OF q] obtain raw where
    raw: "ok \<longleftrightarrow> v \<noteq> []" "wire s' = wire (d_port st) @ query_exchange (cmd_read it) e raw"
      "v = line_text raw"
    unfolding line_text_def by blast
  show ?thesis using assms q raw unfolding dump_item_def
    by (intro exI[of _ raw]) (auto split: if_splits)
qed

lemma dump_loop_Inr:
  "for_each (dump_item D e) its st = Inr st' \<Longrightarrow>
   \<exists>raws. length raws = length its
     \<and> wire (d_port st') = wire (d_port st) @ exchanges e (map cmd_read its) raws
     \<and> d_rows st' = d_rows st @ map2 (\<lambda>it raw. row_of it (line_text raw)) its raws
     \<and> ok_count st' = ok_count st + length (filter (\<lambda>raw. line_text raw \<noteq> []) raws)
     \<and> fail_count st' = fail_count st + length (filter (\<lambda>raw. line_text raw = []) raws)"
proof (induction its arbitrary: st)
  case Nil
  then show ?case by simp
next
  case (Cons it its)
  from Cons.prems obtain st1 where s1: "dump_item D e it st = Inr st1"
    and rest: "for_each (dump_item D e) its st1 = Inr st'"
    by (auto split: sum.splits)
  from dump_item_Inr[OF s1] obtain raw where raw:
    "wire (d_port st1) = wire (d_port st) @ query_exchange (cmd_read it) e raw"
    "d_rows st1 = d_rows st @ [row_of it (line_text raw)]"
    "ok_count st1 = ok_count st + (if line_text raw \<noteq> [] then 1 else 0)"
    "fail_count st1 = fail_count st + (if line_text raw = [] then 1 else 0)"
    by blast
  from Cons.IH[OF rest] obtain raws where raws:
    "length raws = length its"
    "wire (d_port st') = wire (d_port st1) @ exchanges e (map cmd_read its) raws"
    "d_rows st' = d_rows st1 @ map2 (\<lambda>it raw. row_of it (line_text raw)) its raws"
    "ok_count st' = ok_count st1 + length (filter (\<lambda>raw. line_text raw \<noteq> []) raws)"
    "fail_count st' = fail_count st1 + length (filter (\<lambda>raw. line_text raw = []) raws)"
    by blast
  show ?case using raw raws by (intro exI[of _ "raw # raws"]) simp
qed

lemma dump_item_total: "never_raises D \<Longrightarrow> \<exists>st'. dump_item D e it st = Inr st'"
  using try_query_total[of D "cmd_read it" e "d_port st"]
  unfolding dump_item_def by (auto split: prod.splits sum.splits)

lemma map2_descriptor:
  "length raws = length its \<Longrightarrow> map descriptor (map2 (\<lambda>it raw. row_of it (f raw)) its raws) = its"
  by (induction its raws rule: list_induct2') (auto simp: descriptor_def row_of_def)

lemma map2_val:
  "length raws = length its \<Longrightarrow> map val (map2 (\<lambda>it raw. row_of it (f raw)) its raws) = map f raws"
  by (induction its raws rule: list_induct2') (auto simp: row_of_def)

lemma dump_to_csv_Inr:
  assumes "dump_to_csv D cfg now s = Inr res"
  shows "\<exists>raws. length raws = length build_dump_items
     \<and> wire (dump_port res) = wire s @ exchanges (eol cfg) (map cmd_read build_dump_items) raws
     \<and> dump_csv res = map2 (\<lambda>it raw. row_of it (line_text raw)) build_dump_items raws
     \<and> dump_ok res = length (filter (\<lambda>raw. line_text raw \<noteq> []) raws)
     \<and> dump_fail res = length (filter (\<lambda>raw. line_text raw = []) raws)
     \<and> dump_total res = length build_dump_items"
proof -
  let ?st0 = "\<lparr>d_port = s, d_log = [''\<newline>--- DUMP START '' @ now @ '' ---\<newline>''],
                 d_rows = [], ok_count = 0, fail_count = 0\<rparr>"
  from assms obtain st where loop: "for_each (dump_item D (eol cfg)) build_dump_items ?st0 = Inr st"
    and res: "res = \<lparr>dump_csv = d_rows st,
                  dump_log = d_log st @
                    [''--- DUMP END ('' @ str_nat (length (d_rows st)) @ '' rows) ---\<newline>''],
                  dump_total = length (d_rows st), dump_ok = ok_count st,
                  dump_fail = fail_count st, dump_port = d_port st\<rparr>"
    unfolding dump_to_csv_def Let_def by (auto split: sum.splits)
  from dump_loop_Inr[OF loop] obtain raws where raws:
     "length raws = length build_dump_items"
     "wire (d_port st) = wire s @ exchanges (eol cfg) (map cmd_read build_dump_items) raws"
     "d_rows st = map2 (\<lambda>it raw. row_of it (line_text raw)) build_dump_items raws"
     "ok_count st = length (filter (\<lambda>raw. line_text raw \<noteq> []) raws)"
     "fail_count st = length (filter (\<lambda>raw. line_text raw = []) raws)"
    by auto
  show ?thesis using raws res by (intro exI[of _ raws]) simp
qed

lemma dump_to_csv_total:
  assumes "never_raises D"
  shows "\<exists>res. dump_to_csv D cfg now s = Inr res"
proof -
  obtain st where "for_each (dump_item D (eol cfg)) build_dump_items
      \<lparr>d_port = s, d_log = [''\<newline>--- DUMP START '' @ now @ '' ---\<newline>''],
       d_rows = [], ok_count = 0, fail_count = 0\<rparr> = Inr st"
    using for_each_total[of "dump_item D (eol cfg)"] dump_item_total[OF assms] by blast
  then show ?thesis unfolding dump_to_csv_def Let_def by simp
qed

lemma filter_partition_length:
  "length (filter P xs) + length (filter (\<lambda>x. \<not> P x) xs) = length xs"
  by (induction xs) auto

text \<open>The dump as a run of queries.\<close>

lemma dump_item_unfold:
  "dump_item D e it st =
     (case try_query D (cmd_read it) e (d_port st) of
        (Inl x, s') \<Rightarrow> Inl x
      | (Inr (ok, v), s') \<Rightarrow>
          Inr (st\<lparr>d_port := s',
                 ok_count := ok_count st + (if v \<noteq> [] then 1 else 0),
                 fail_count := fail_count st + (if v = [] then 1 else 0),
                 d_log := d_log st @ [dump_line it v],
                 d_rows := d_rows st @ [row_of it v]\<rparr>))"
proof (cases "try_query D (cmd_read it) e (d_port st)")
  case (Pair r s')
  show ?thesis
  proof (cases r)
    case (Inl x)
    with Pair show ?thesis by (simp add: dump_item_def)
  next
    case (Inr p)
    obtain ok v where p: "p = (ok, v)" by (cases p)
    from Pair Inr p have q: "try_query D (cmd_read it) e (d_port st) = (Inr (ok, v), s')" by simp
    from try_query_Inr[OF q] have okv: "ok \<longleftrightarrow> v \<noteq> []" by blast
    show ?thesis
    proof (cases ok)
      case True
      with okv have "v \<noteq> []" by simp
      with True q show ?thesis by (simp add: dump_item_def dump_line_def)
    next
      case False
      with okv have "v = []" by simp
      with False q show ?thesis by (simp add: dump_item_def dump_line_def row_of_def)
    qed
  qed
qed

lemma dump_loop_exact:
  "for_each (dump_item D e) its st =
     (case query_all D e (map cmd_read its) (d_port st) of
        Inl x \<Rightarrow> Inl x
      | Inr (vs, s') \<Rightarrow>
          Inr (st\<lparr>d_port := s',
                 ok_count := ok_count st + length (filter (\<lambda>v. v \<noteq> []) vs),
                 fail_count := fail_count st + length (filter (\<lambda>v. v = []) vs),
                 d_log := d_log st @ map2 dump_line its vs,
                 d_rows := d_rows st @ map2 row_of its vs\<rparr>))"
proof (induction its arbitrary: st)
  case Nil
  show ?case by simp
next
  case (Cons it its)
  show ?case
  proof (cases "try_query D (cmd_read it) e (d_port st)")
    case (Pair r s1)
    show ?thesis
    proof (cases r)
      case (Inl x)
      with Pair show ?thesis by (simp add: dump_item_unfold)
    next
      case (Inr p)
      obtain ok v where p: "p = (ok, v)" by (cases p)
      from Pair Inr p have q: "try_query D (cmd_read it) e (d_port st) = (Inr (ok, v), s1)"
        by simp
      let ?st1 = "st\<lparr>d_port := s1,
                 ok_count := ok_count st + (if v \<noteq> [] then 1 else 0),
                 fail_count := fail_count st + (if v = [] then 1 else 0),
                 d_log := d_log st @ [dump_line it v],
                 d_rows := d_rows st @ [row_of it v]\<rparr>"
      have step: "dump_item D e it st = Inr ?st1" using q by (simp add: dump_item_unfold)
      show ?thesis
      proof (cases "query_all D e (map cmd_read its) s1")
        case (Inl x)
        then show ?thesis using step q Cons.IH[of ?st1] by simp
      next
        case (Inr w)
        obtain vs s2 where w: "w = (vs, s2)" by (cases w)
        show ?thesis using step q Inr w Cons.IH[of ?st1] by simp
      qed
    qed
  qed
qed

lemma query_all_length:
  "query_all D e cs s = Inr (vs, s') \<Longrightarrow> length vs = length cs"
  by (induction cs arbitrary: s vs) (auto split: prod.splits sum.splits)

lemma dump_to_csv_exact:
  "dump_to_csv D cfg now s =
     (case query_all D (eol cfg) (map cmd_read build_dump_items) s of
        Inl x \<Rightarrow> Inl x
      | Inr (vs, s') \<Rightarrow>
          Inr \<lparr>dump_csv = map2 row_of build_dump_items vs,
               dump_log =
                 [''\<newline>--- DUMP START '' @ now @ '' ---\<newline>''] @
                 map2 dump_line build_dump_items vs @
                 [''--- DUMP END ('' @ str_nat (length build_dump_items) @ '' rows) ---\<newline>''],
               dump_total = length build_dump_items,
               dump_ok = length (filter (\<lambda>v. v \<noteq> []) vs),
               dump_fail = length (filter (\<lambda>v. v = []) vs),
               dump_port = s'\<rparr>)"
proof (cases "query_all D (eol cfg) (map cmd_read build_dump_items) s")
  case (Inl x)
  then show ?thesis unfolding dump_to_csv_def Let_def dump_loop_exact by simp
next
  case (Inr w)
  obtain vs s' where w: "w = (vs, s')" by (cases w)
  from Inr w have "length vs = length build_dump_items"
    using query_all_length[of D "eol cfg" "map cmd_read build_dump_items" s vs s'] by simp
  then show ?thesis using Inr w unfolding dump_to_csv_def Let_def dump_loop_exact by simp
qed

text \<open>The answers of the bench instrument to the catalog.\<close>

lemma bench_try_query:
  assumes a: "encode_ascii (c @ ''\<newline>'') = c @ ''\<newline>''" and ne: "c \<noteq> []"
  shows "\<exists>s'. try_query bench c ''\<newline>'' s =
           (Inr (line_text (bench_reply (c @ ''\<newline>'')) \<noteq> [],
                 line_text (bench_reply (c @ ''\<newline>''))), s')"
proof -
  have n: "c @ ''\<newline>'' \<noteq> ''\<newline>''" using ne by simp
  have st: "strip [] = []" by (simp add: strip_def lstrip_def rstrip_def)
  show ?thesis
    using a n st
    by (simp add: try_query_def query_def read_line_def send_cmd_def clear_com_buffer_def
        io_bind_def io_return_def ser_write_def ser_flush_def ser_readline_def
        ser_reset_input_buffer_def bench_def line_text_def decode_ascii_def)
qed

lemma bench_query_all:
  assumes "list_all (\<lambda>c. encode_ascii (c @ ''\<newline>'') = c @ ''\<newline>'' \<and> c \<noteq> []) cs"
  shows "\<exists>s'. query_all bench ''\<newline>'' cs s =
           Inr (map (\<lambda>c. line_text (bench_reply (c @ ''\<newline>''))) cs, s')"
  using assms
proof (induction cs arbitrary: s)
  case Nil
  show ?case by simp
next
  case (Cons c cs)
  from Cons.prems have c: "encode_ascii (c @ ''\<newline>'') = c @ ''\<newline>''" "c \<noteq> []"
    and rest: "list_all (\<lambda>c. encode_ascii (c @ ''\<newline>'') = c @ ''\<newline>'' \<and> c \<noteq> []) cs"
    by simp_all
  from bench_try_query[OF c, of s] obtain s1 where
    q: "try_query bench c ''\<newline>'' s =
           (Inr (line_text (bench_reply (c @ ''\<newline>'')) \<noteq> [],
                 line_text (bench_reply (c @ ''\<newline>''))), s1)" by blast
  from Cons.IH[OF rest, of s1] obtain s2 where
    r: "query_all bench ''\<newline>'' cs s1 =
           Inr (map (\<lambda>c. line_text (bench_reply (c @ ''\<newline>''))) cs, s2)" by blast
  show ?case using q r by simp
qed

lemma encode_ascii_id: "(\<And>c. c \<in> set s \<Longrightarrow> (of_char c :: nat) < 128) \<Longrightarrow> encode_ascii s = s"
  by (simp add: encode_ascii_def)

lemma str_nat_ascii: "c \<in> set (str_nat n) \<Longrightarrow> (of_char c :: nat) < 128"
  using str_nat_digits[of n] by auto

lemma catalog_commands_ascii:
  "list_all (\<lambda>c. encode_ascii (c @ ''\<newline>'') = c @ ''\<newline>'' \<and> c \<noteq> [])
     (map cmd_read build_dump_items)"
  unfolding build_dump_items_unfolded list_all_iff
  by (auto simp: item_defs intro!: encode_ascii_id dest: str_nat_ascii)

lemma bench_dump_values:
  "\<exists>s'. query_all bench ''\<newline>'' (map cmd_read build_dump_items) port0 =
          Inr (map bench_value build_dump_items, s')"
proof -
  from bench_query_all[OF catalog_commands_ascii, of port0] obtain s' where
    "query_all bench ''\<newline>'' (map cmd_read build_dump_items) port0 =
      Inr (map (\<lambda>c. line_text (bench_reply (c @ ''\<newline>''))) (map cmd_read build_dump_items), s')"
    by blast
  then show ?thesis by (auto simp: bench_value_def comp_def)
qed

lemma str_nat_5: "str_nat 5 = ''5''"
  by (simp add: str_nat.simps)

lemma str_nat_eq_5 [simp]: "str_nat i = ''5'' \<longleftrightarrow> i = 5"
  using str_nat_inj[of i 5] by (simp add: str_nat_5)

lemmas line_defs = line_text_def decode_ascii_def strip_def lstrip_def rstrip_def isspace_def

lemma bench_value_simps:
  "bench_value idn_item = ''StanfordResearchSystems,SR720''"
  "bench_value frq_item = ''12''"
  "bench_value rnd_item = []"
  "bench_value (cbt_item i) = (if i = 5 then ''200'' else [])"
  "bench_value (cmj_item r) = []"
  "bench_value (cmn_item r) = []"
  "bench_value (cft_item i) = []"
  by (simp_all add: bench_value_def bench_reply_def item_defs line_defs)

lemma filter_eq_upt: "filter (\<lambda>i. i = k) [a..<b] = (if a \<le> k \<and> k < b then [k] else [])"
  by (induction b) auto

lemma bench_values_ok: "length (filter (\<lambda>v. v \<noteq> []) (map bench_value build_dump_items)) = 3"
  unfolding build_dump_items_unfolded
  by (simp add: bench_value_simps filter_map comp_def filter_eq_upt)

lemma bench_values_fail: "length (filter (\<lambda>v. v = []) (map bench_value build_dump_items)) = 224"
proof -
  have "length (filter (\<lambda>v. v \<noteq> []) (map bench_value build_dump_items))
        + length (filter (\<lambda>v. \<not> v \<noteq> []) (map bench_value build_dump_items))
        = length (map bench_value build_dump_items)"
    by (rule filter_partition_length)
  then show ?thesis using bench_values_ok items_length by simp
qed

lemma map2_map_right: "map2 f xs (map g xs) = map (\<lambda>x. f x (g x)) xs"
  by (induction xs) auto

text \<open>
  Claim C8. A dump is the run of the read commands of the catalog, in catalog order, on
  the port: it raises what that run raises, and otherwise the snapshot file holds exactly
  one row per catalog entry, in order, each the entry itself (key, commands, scope, notes)
  with the text \<open>try_query\<close> returned for its read command as value, which is empty exactly
  when the read failed. Failed rows are in the file like the others; \<open>ok\<close> counts the
  non-empty responses, \<open>fail\<close> the empty ones, and \<open>ok + fail = total\<close> is the number of
  catalog entries. The wire shows one query exchange per entry, and each value is the text
  of the line read in its exchange. On a port that never raises, the dump returns. On the
  bench instrument the rows carry its identity, its frequency correction and its amplitude
  calbyte 5, and 224 rows are empty.
\<close>

theorem dump_one_row_per_descriptor:
  "dump_to_csv D cfg now s =
     (case query_all D (eol cfg) (map cmd_read build_dump_items) s of
        Inl x \<Rightarrow> Inl x
      | Inr (vs, s') \<Rightarrow>
          Inr \<lparr>dump_csv = map2 row_of build_dump_items vs,
               dump_log =
                 [''\<newline>--- DUMP START '' @ now @ '' ---\<newline>''] @
                 map2 dump_line build_dump_items vs @
                 [''--- DUMP END ('' @ str_nat (length build_dump_items) @ '' rows) ---\<newline>''],
               dump_total = length build_dump_items,
               dump_ok = length (filter (\<lambda>v. v \<noteq> []) vs),
               dump_fail = length (filter (\<lambda>v. v = []) vs),
               dump_port = s'\<rparr>)
   \<and> (dump_to_csv D cfg now s = Inr res \<longrightarrow>
      map descriptor (dump_csv res) = build_dump_items
    \<and> (\<exists>raws. length raws = length build_dump_items
          \<and> wire (dump_port res) =
              wire s @ exchanges (eol cfg) (map cmd_read build_dump_items) raws
          \<and> map val (dump_csv res) = map line_text raws)
    \<and> dump_ok res = length (filter (\<lambda>r. val r \<noteq> []) (dump_csv res))
    \<and> dump_fail res = length (filter (\<lambda>r. val r = []) (dump_csv res))
    \<and> dump_ok res + dump_fail res = dump_total res
    \<and> dump_total res = length build_dump_items
    \<and> length (dump_csv res) = length build_dump_items)
   \<and> (never_raises D \<longrightarrow> (\<exists>res. dump_to_csv D cfg now s = Inr res))"
proof (intro conjI impI)
  show "dump_to_csv D cfg now s =
     (case query_all D (eol cfg) (map cmd_read build_dump_items) s of
        Inl x \<Rightarrow> Inl x
      | Inr (vs, s') \<Rightarrow>
          Inr \<lparr>dump_csv = map2 row_of build_dump_items vs,
               dump_log =
                 [''\<newline>--- DUMP START '' @ now @ '' ---\<newline>''] @
                 map2 dump_line build_dump_items vs @
                 [''--- DUMP END ('' @ str_nat (length build_dump_items) @ '' rows) ---\<newline>''],
               dump_total = length build_dump_items,
               dump_ok = length (filter (\<lambda>v. v \<noteq> []) vs),
               dump_fail = length (filter (\<lambda>v. v = []) vs),
               dump_port = s'\<rparr>)"
    by (rule dump_to_csv_exact)
next
  assume run: "dump_to_csv D cfg now s = Inr res"
  from dump_to_csv_Inr[OF run] obtain raws where raws:
    "length raws = length build_dump_items"
    "wire (dump_port res) = wire s @ exchanges (eol cfg) (map cmd_read build_dump_items) raws"
    "dump_csv res = map2 (\<lambda>it raw. row_of it (line_text raw)) build_dump_items raws"
    "dump_ok res = length (filter (\<lambda>raw. line_text raw \<noteq> []) raws)"
    "dump_fail res = length (filter (\<lambda>raw. line_text raw = []) raws)"
    "dump_total res = length build_dump_items"
    by blast
  have vals: "map val (dump_csv res) = map line_text raws"
    by (simp only: raws(3) map2_val[OF raws(1)])
  show "map descriptor (dump_csv res) = build_dump_items"
    by (simp only: raws(3) map2_descriptor[OF raws(1)])
  show "\<exists>raws. length raws = length build_dump_items
          \<and> wire (dump_port res) =
              wire s @ exchanges (eol cfg) (map cmd_read build_dump_items) raws
          \<and> map val (dump_csv res) = map line_text raws"
    using raws(1,2) vals by blast
  have cnt: "length (filter (\<lambda>r. P (val r)) (dump_csv res)) =
             length (filter (\<lambda>raw. P (line_text raw)) raws)" for P
  proof -
    have "length (filter (\<lambda>r. P (val r)) (dump_csv res)) =
          length (filter P (map val (dump_csv res)))"
      by (simp add: filter_map comp_def)
    also have "\<dots> = length (filter P (map line_text raws))" by (simp only: vals)
    also have "\<dots> = length (filter (\<lambda>raw. P (line_text raw)) raws)"
      by (simp add: filter_map comp_def)
    finally show ?thesis .
  qed
  show "dump_ok res = length (filter (\<lambda>r. val r \<noteq> []) (dump_csv res))"
    using raws(4) cnt[of "\<lambda>v. v \<noteq> []"] by simp
  show "dump_fail res = length (filter (\<lambda>r. val r = []) (dump_csv res))"
    using raws(5) cnt[of "\<lambda>v. v = []"] by simp
  show "dump_total res = length build_dump_items" by (rule raws(6))
  show "length (dump_csv res) = length build_dump_items"
    using raws(1,3) by simp
  show "dump_ok res + dump_fail res = dump_total res"
    using raws(1,4,5,6) filter_partition_length[of "\<lambda>raw. line_text raw \<noteq> []" raws] by simp
next
  assume "never_raises D"
  then show "\<exists>res. dump_to_csv D cfg now s = Inr res" by (rule dump_to_csv_total)
qed

theorem dump_one_row_per_descriptor_witness:
  "never_raises bench \<and>
   (\<exists>res. dump_to_csv bench cfg0 now0 port0 = Inr res
      \<and> dump_csv res = map (\<lambda>it. row_of it (bench_value it)) build_dump_items
      \<and> dump_csv res ! 0 = row_of idn_item ''StanfordResearchSystems,SR720''
      \<and> dump_csv res ! 1 = row_of frq_item ''12''
      \<and> dump_csv res ! 2 = row_of rnd_item []
      \<and> dump_csv res ! 8 = row_of (cbt_item 5) ''200''
      \<and> map descriptor (dump_csv res) = build_dump_items
      \<and> length (dump_csv res) = 227 \<and> dump_total res = 227
      \<and> dump_ok res = 3 \<and> dump_fail res = 224)"
proof -
  from bench_dump_values obtain s' where
    q: "query_all bench ''\<newline>'' (map cmd_read build_dump_items) port0 =
          Inr (map bench_value build_dump_items, s')" by blast
  let ?res = "\<lparr>dump_csv = map2 row_of build_dump_items (map bench_value build_dump_items),
               dump_log =
                 [''\<newline>--- DUMP START '' @ now0 @ '' ---\<newline>''] @
                 map2 dump_line build_dump_items (map bench_value build_dump_items) @
                 [''--- DUMP END ('' @ str_nat (length build_dump_items) @ '' rows) ---\<newline>''],
               dump_total = length build_dump_items,
               dump_ok = length (filter (\<lambda>v. v \<noteq> []) (map bench_value build_dump_items)),
               dump_fail = length (filter (\<lambda>v. v = []) (map bench_value build_dump_items)),
               dump_port = s'\<rparr>"
  have e: "eol cfg0 = ''\<newline>''" by (simp add: cfg0_def)
  from dump_one_row_per_descriptor[of bench cfg0 now0 port0 ?res] q e
  have run: "dump_to_csv bench cfg0 now0 port0 = Inr ?res"
    and d: "map descriptor (dump_csv ?res) = build_dump_items"
    by simp_all
  have csv: "dump_csv ?res = map (\<lambda>it. row_of it (bench_value it)) build_dump_items"
    by (simp add: map2_map_right)
  have rows: "dump_csv ?res ! 0 = row_of idn_item ''StanfordResearchSystems,SR720''"
    "dump_csv ?res ! 1 = row_of frq_item ''12''"
    "dump_csv ?res ! 2 = row_of rnd_item []"
    "dump_csv ?res ! 8 = row_of (cbt_item 5) ''200''"
    unfolding csv build_dump_items_unfolded
    by (simp_all add: bench_value_simps nth_append)
  have n: "length (dump_csv ?res) = 227" "dump_total ?res = 227"
    "dump_ok ?res = 3" "dump_fail ?res = 224"
    using items_length bench_values_ok bench_values_fail by simp_all
  show ?thesis
    using never_raises_bench run csv rows d n
    by (intro conjI exI[of _ ?res])
qed

subsection \<open>Compare\<close>

lemma compare_row_skip:
  assumes "cmp_skippable r" "compare_row F D e tol r st = Inr st'"
  shows "c_port st' = c_port st \<and> results st' = results st @ [spec_skipped r]
       \<and> cmp_skip_count st' = cmp_skip_count st + 1 \<and> match_count st' = match_count st
       \<and> mismatch_count st' = mismatch_count st \<and> read_fail_count st' = read_fail_count st"
  using assms unfolding compare_row_def cmp_skippable_def spec_skipped_def Let_def by auto

lemma compare_row_queried:
  assumes ns: "\<not> cmp_skippable r" and run: "compare_row F D e tol r st = Inr st'"
  shows "\<exists>raw. wire (c_port st') = wire (c_port st) @ query_exchange (strip (cmd_read r)) e raw
       \<and> results st' = results st @ [spec_queried F tol r (line_text raw)]
       \<and> cmp_skip_count st' = cmp_skip_count st
       \<and> match_count st' = match_count st + count_status ''match'' [spec_queried F tol r (line_text raw)]
       \<and> mismatch_count st' = mismatch_count st + count_status ''mismatch'' [spec_queried F tol r (line_text raw)]
       \<and> read_fail_count st' = read_fail_count st + count_status ''read_fail'' [spec_queried F tol r (line_text raw)]"
proof -
  let ?cr = "strip (cmd_read r)"
  from ns run obtain ok act s' where q: "try_query D ?cr e (c_port st) = (Inr (ok, act), s')"
    unfolding compare_row_def cmp_skippable_def Let_def by (auto split: prod.splits sum.splits)
  from try_query_Inr[OF q] obtain raw where
    raw: "ok \<longleftrightarrow> act \<noteq> []" "wire s' = wire (c_port st) @ query_exchange ?cr e raw"
      "act = line_text raw"
    unfolding line_text_def by blast
  show ?thesis
  proof (cases ok)
    case False
    then show ?thesis using ns run q raw
      unfolding compare_row_def cmp_skippable_def Let_def spec_queried_def count_status_def
      by (intro exI[of _ raw]) auto
  next
    case True
    with ns run q obtain m d where cv: "compare_values F (strip (val r)) act tol = Inr (m, d)"
      unfolding compare_row_def cmp_skippable_def Let_def by (auto split: sum.splits)
    then have v: "verdict F (strip (val r)) act tol = (m, d)" by (simp add: verdict_def)
    show ?thesis using True ns run q raw cv v
      unfolding compare_row_def cmp_skippable_def Let_def spec_queried_def count_status_def
      by (intro exI[of _ raw]) (auto split: if_splits)
  qed
qed

lemma count_status_append [simp]:
  "count_status t (xs @ ys) = count_status t xs + count_status t ys"
  by (simp add: count_status_def)

lemma count_status_Cons:
  "count_status t (x # xs) = count_status t [x] + count_status t xs"
  by (simp add: count_status_def)

lemma count_status_skipped [simp]:
  "count_status ''match'' [spec_skipped r] = 0" "count_status ''mismatch'' [spec_skipped r] = 0"
  "count_status ''read_fail'' [spec_skipped r] = 0" "count_status ''skipped'' [spec_skipped r] = 1"
  by (simp_all add: count_status_def spec_skipped_def)

lemma count_status_queried_skipped [simp]:
  "count_status ''skipped'' [spec_queried F tol r resp] = 0"
  by (simp add: count_status_def spec_queried_def)

lemma compare_loop_Inr:
  "for_each (compare_row F D e tol) rows st = Inr st' \<Longrightarrow>
   \<exists>raws. length raws = length (queried_rows rows)
     \<and> wire (c_port st') =
         wire (c_port st) @ exchanges e (map (\<lambda>r. strip (cmd_read r)) (queried_rows rows)) raws
     \<and> results st' = results st @ spec_report F tol rows (map line_text raws)
     \<and> length (spec_report F tol rows (map line_text raws)) = length rows
     \<and> match_count st' = match_count st
          + count_status ''match'' (spec_report F tol rows (map line_text raws))
     \<and> mismatch_count st' = mismatch_count st
          + count_status ''mismatch'' (spec_report F tol rows (map line_text raws))
     \<and> read_fail_count st' = read_fail_count st
          + count_status ''read_fail'' (spec_report F tol rows (map line_text raws))
     \<and> cmp_skip_count st' = cmp_skip_count st
          + count_status ''skipped'' (spec_report F tol rows (map line_text raws))"
proof (induction rows arbitrary: st)
  case Nil
  then show ?case by (simp add: queried_rows_def count_status_def)
next
  case (Cons r rows)
  from Cons.prems obtain st1 where s1: "compare_row F D e tol r st = Inr st1"
    and rest: "for_each (compare_row F D e tol) rows st1 = Inr st'"
    by (auto split: sum.splits)
  from Cons.IH[OF rest] obtain raws where raws:
    "length raws = length (queried_rows rows)"
    "wire (c_port st') =
       wire (c_port st1) @ exchanges e (map (\<lambda>r. strip (cmd_read r)) (queried_rows rows)) raws"
    "results st' = results st1 @ spec_report F tol rows (map line_text raws)"
    "length (spec_report F tol rows (map line_text raws)) = length rows"
    "match_count st' = match_count st1
          + count_status ''match'' (spec_report F tol rows (map line_text raws))"
    "mismatch_count st' = mismatch_count st1
          + count_status ''mismatch'' (spec_report F tol rows (map line_text raws))"
    "read_fail_count st' = read_fail_count st1
          + count_status ''read_fail'' (spec_report F tol rows (map line_text raws))"
    "cmp_skip_count st' = cmp_skip_count st1
          + count_status ''skipped'' (spec_report F tol rows (map line_text raws))"
    by blast
  show ?case
  proof (cases "cmp_skippable r")
    case True
    from compare_row_skip[OF True s1] raws True show ?thesis
      by (intro exI[of _ raws])
         (simp add: queried_rows_def
           count_status_Cons[of _ "spec_skipped r" "spec_report F tol rows (map line_text raws)"])
  next
    case False
    from compare_row_queried[OF False s1] obtain raw where raw:
      "wire (c_port st1) = wire (c_port st) @ query_exchange (strip (cmd_read r)) e raw"
      "results st1 = results st @ [spec_queried F tol r (line_text raw)]"
      "cmp_skip_count st1 = cmp_skip_count st"
      "match_count st1 = match_count st + count_status ''match'' [spec_queried F tol r (line_text raw)]"
      "mismatch_count st1 = mismatch_count st + count_status ''mismatch'' [spec_queried F tol r (line_text raw)]"
      "read_fail_count st1 = read_fail_count st + count_status ''read_fail'' [spec_queried F tol r (line_text raw)]"
      by blast
    from raw raws False show ?thesis
      by (intro exI[of _ "raw # raws"])
         (simp add: queried_rows_def
           count_status_Cons[of _ "spec_queried F tol r (line_text raw)"
             "spec_report F tol rows (map line_text raws)"])
  qed
qed

subsection \<open>The comparator\<close>




lemma compare_values_total:
  "isclose_accepts F tol \<Longrightarrow> \<exists>m d. compare_values F e a tol = Inr (m, d)"
  unfolding isclose_accepts_def compare_values_def Let_def
  by (auto split: option.splits sum.splits) (metis Inl_Inr_False)+

lemma compare_row_total:
  assumes "never_raises D" "isclose_accepts F tol"
  shows "\<exists>st'. compare_row F D e tol r st = Inr st'"
proof -
  obtain ok act s' where q: "try_query D (strip (cmd_read r)) e (c_port st) = (Inr (ok, act), s')"
    using try_query_total[OF assms(1)] by blast
  obtain m d where cv: "compare_values F (strip (val r)) act tol = Inr (m, d)"
    using compare_values_total[OF assms(2)] by blast
  show ?thesis unfolding compare_row_def Let_def using q cv by auto
qed

lemma spec_report_length:
  "length resps = length (queried_rows rows) \<Longrightarrow> length (spec_report F tol rows resps) = length rows"
  by (induction rows arbitrary: resps)
     (auto simp: queried_rows_def split: list.splits if_splits)

lemma spec_report_skipped:
  "length resps = length (queried_rows rows) \<Longrightarrow>
   map (\<lambda>x. status x = ''skipped'') (spec_report F tol rows resps) = map cmp_skippable rows"
  by (induction rows arbitrary: resps)
     (auto simp: queried_rows_def spec_skipped_def spec_queried_def
        split: list.splits if_splits)

lemma spec_report_counts:
  "count_status ''match'' (spec_report F tol rows resps)
   + count_status ''mismatch'' (spec_report F tol rows resps)
   + count_status ''read_fail'' (spec_report F tol rows resps)
   + count_status ''skipped'' (spec_report F tol rows resps)
   = length (spec_report F tol rows resps)"
  by (induction rows arbitrary: resps)
     (auto simp: count_status_def spec_skipped_def spec_queried_def split: list.splits)

lemma compare_from_csv_Inr:
  assumes "compare_from_csv F D cfg now rows tol s = Inr res"
  shows "\<exists>idn raws. length raws = length (queried_rows rows)
     \<and> wire (compare_port res) =
         wire s @ query_exchange ''*IDN?'' (eol cfg) idn @
         exchanges (eol cfg) (map (\<lambda>r. strip (cmd_read r)) (queried_rows rows)) raws
     \<and> report res = spec_report F tol rows (map line_text raws)
     \<and> cmp_match res = count_status ''match'' (report res)
     \<and> cmp_mismatch res = count_status ''mismatch'' (report res)
     \<and> cmp_read_fail res = count_status ''read_fail'' (report res)
     \<and> cmp_skipped res = count_status ''skipped'' (report res)
     \<and> cmp_total res = length (report res)"
proof -
  from assms obtain ok idn s1 where q: "try_query D ''*IDN?'' (eol cfg) s = (Inr (ok, idn), s1)"
    unfolding compare_from_csv_def by (auto split: prod.splits sum.splits)
  let ?st0 = "\<lparr>c_port = s1,
               c_log = [''\<newline>--- COMPARE START '' @ now @ '' | tol='' @ f_str F tol @
                        '' ---\<newline>'', info_line ok idn],
               results = [], match_count = 0, mismatch_count = 0, cmp_skip_count = 0,
               read_fail_count = 0\<rparr>"
  from assms q obtain st where loop: "for_each (compare_row F D (eol cfg) tol) rows ?st0 = Inr st"
    and res: "report res = results st" "cmp_match res = match_count st"
      "cmp_mismatch res = mismatch_count st" "cmp_read_fail res = read_fail_count st"
      "cmp_skipped res = cmp_skip_count st" "cmp_total res = length (results st)"
      "compare_port res = c_port st"
    unfolding compare_from_csv_def Let_def by (auto split: sum.splits)
  from try_query_Inr[OF q] obtain raw0 where raw0:
    "wire s1 = wire s @ query_exchange ''*IDN?'' (eol cfg) raw0" by blast
  from compare_loop_Inr[OF loop] obtain raws where raws:
    "length raws = length (queried_rows rows)"
    "wire (c_port st) =
       wire s1 @ exchanges (eol cfg) (map (\<lambda>r. strip (cmd_read r)) (queried_rows rows)) raws"
    "results st = spec_report F tol rows (map line_text raws)"
    "match_count st = count_status ''match'' (spec_report F tol rows (map line_text raws))"
    "mismatch_count st = count_status ''mismatch'' (spec_report F tol rows (map line_text raws))"
    "read_fail_count st = count_status ''read_fail'' (spec_report F tol rows (map line_text raws))"
    "cmp_skip_count st = count_status ''skipped'' (spec_report F tol rows (map line_text raws))"
    by auto
  show ?thesis using raw0 raws res
    by (intro exI[of _ raw0] exI[of _ raws]) simp
qed

lemma compare_from_csv_total:
  assumes "never_raises D" "isclose_accepts F tol"
  shows "\<exists>res. compare_from_csv F D cfg now rows tol s = Inr res"
proof -
  obtain ok idn s1 where q: "try_query D ''*IDN?'' (eol cfg) s = (Inr (ok, idn), s1)"
    using try_query_total[OF assms(1)] by blast
  obtain st where "for_each (compare_row F D (eol cfg) tol) rows
      \<lparr>c_port = s1,
       c_log = [''\<newline>--- COMPARE START '' @ now @ '' | tol='' @ f_str F tol @
                '' ---\<newline>'', info_line ok idn],
       results = [], match_count = 0, mismatch_count = 0, cmp_skip_count = 0,
       read_fail_count = 0\<rparr> = Inr st"
    using for_each_total[of "compare_row F D (eol cfg) tol"] compare_row_total[OF assms] by blast
  then show ?thesis unfolding compare_from_csv_def Let_def using q by simp
qed

text \<open>
  Claim C4. Whenever a compare run returns, its report is the one the specification
  describes: one report row per snapshot row, in order; a row is \<open>skipped\<close> exactly when its
  trimmed read command or trimmed value is empty, and is then not queried; every other row
  is queried once, and is \<open>read_fail\<close> when the text of the response is empty, otherwise
  \<open>match\<close> or \<open>mismatch\<close> by the comparator. Each count is the number of report rows with
  that status, and \<open>match + mismatch + read_fail + skipped = total\<close> is the number of
  snapshot rows. The run returns on a port that never raises, with a tolerance that
  \<open>math.isclose\<close> accepts. The witness is the three-row example of the specification.
\<close>

theorem compare_classifies_every_row:
  "(compare_from_csv F D cfg now rows tol s = Inr res \<longrightarrow>
      (\<exists>idn raws. length raws = length (queried_rows rows)
         \<and> wire (compare_port res) =
             wire s @ query_exchange ''*IDN?'' (eol cfg) idn @
             exchanges (eol cfg) (map (\<lambda>r. strip (cmd_read r)) (queried_rows rows)) raws
         \<and> report res = spec_report F tol rows (map line_text raws))
    \<and> length (report res) = length rows
    \<and> map (\<lambda>x. status x = ''skipped'') (report res) = map cmp_skippable rows
    \<and> cmp_match res = count_status ''match'' (report res)
    \<and> cmp_mismatch res = count_status ''mismatch'' (report res)
    \<and> cmp_read_fail res = count_status ''read_fail'' (report res)
    \<and> cmp_skipped res = count_status ''skipped'' (report res)
    \<and> cmp_match res + cmp_mismatch res + cmp_read_fail res + cmp_skipped res = cmp_total res
    \<and> cmp_total res = length rows)
   \<and> (never_raises D \<and> isclose_accepts F tol \<longrightarrow>
        (\<exists>res. compare_from_csv F D cfg now rows tol s = Inr res))"
proof (intro conjI impI)
  assume run: "compare_from_csv F D cfg now rows tol s = Inr res"
  from compare_from_csv_Inr[OF run] obtain idn raws where r:
    "length raws = length (queried_rows rows)"
    "wire (compare_port res) =
       wire s @ query_exchange ''*IDN?'' (eol cfg) idn @
       exchanges (eol cfg) (map (\<lambda>r. strip (cmd_read r)) (queried_rows rows)) raws"
    "report res = spec_report F tol rows (map line_text raws)"
    and c: "cmp_match res = count_status ''match'' (report res)"
    "cmp_mismatch res = count_status ''mismatch'' (report res)"
    "cmp_read_fail res = count_status ''read_fail'' (report res)"
    "cmp_skipped res = count_status ''skipped'' (report res)"
    "cmp_total res = length (report res)"
    by blast
  have len: "length (map line_text raws) = length (queried_rows rows)" using r(1) by simp
  show "\<exists>idn raws. length raws = length (queried_rows rows)
         \<and> wire (compare_port res) =
             wire s @ query_exchange ''*IDN?'' (eol cfg) idn @
             exchanges (eol cfg) (map (\<lambda>r. strip (cmd_read r)) (queried_rows rows)) raws
         \<and> report res = spec_report F tol rows (map line_text raws)"
    using r by blast
  show l: "length (report res) = length rows"
    using spec_report_length[OF len] r(3) by simp
  show "map (\<lambda>x. status x = ''skipped'') (report res) = map cmp_skippable rows"
    using spec_report_skipped[OF len] r(3) by simp
  show "cmp_match res = count_status ''match'' (report res)" by (rule c(1))
  show "cmp_mismatch res = count_status ''mismatch'' (report res)" by (rule c(2))
  show "cmp_read_fail res = count_status ''read_fail'' (report res)" by (rule c(3))
  show "cmp_skipped res = count_status ''skipped'' (report res)" by (rule c(4))
  show "cmp_total res = length rows" using c(5) l by simp
  show "cmp_match res + cmp_mismatch res + cmp_read_fail res + cmp_skipped res = cmp_total res"
    using c r(3) spec_report_counts[of F tol rows "map line_text raws"] by simp
next
  assume "never_raises D \<and> isclose_accepts F tol"
  then show "\<exists>res. compare_from_csv F D cfg now rows tol s = Inr res"
    by (auto intro: compare_from_csv_total)
qed

lemma isclose_accepts_zero: "isclose_accepts whole_floats 0"
  by (simp add: isclose_accepts_def whole_floats_def)

lemmas compare_run_defs = compare_from_csv_def compare_row_def compare_values_def
  to_float_or_none_def info_line_def Let_def

lemma three_rows_run:
  "\<exists>res. compare_from_csv whole_floats bench cfg0 now0 three_rows 0 port0 = Inr res
      \<and> map status (report res) = [''match'', ''skipped'', ''read_fail'']"
  by (simp add: compare_run_defs three_rows_def row_of_def item_defs port_run_defs bench_defs
      str_nat.simps)


lemma count_status_via_map:
  "count_status tag rs = length (filter (\<lambda>t. t = tag) (map status rs))"
  by (simp add: count_status_def filter_map comp_def)

theorem compare_classifies_every_row_witness:
  "never_raises bench \<and> isclose_accepts whole_floats 0 \<and>
   (\<exists>res. compare_from_csv whole_floats bench cfg0 now0 three_rows 0 port0 = Inr res
      \<and> map status (report res) = [''match'', ''skipped'', ''read_fail'']
      \<and> cmp_match res + cmp_mismatch res = 1 \<and> cmp_skipped res = 1
      \<and> cmp_read_fail res = 1 \<and> cmp_total res = 3)"
proof -
  from three_rows_run obtain res where
    run: "compare_from_csv whole_floats bench cfg0 now0 three_rows 0 port0 = Inr res"
    and st: "map status (report res) = [''match'', ''skipped'', ''read_fail'']"
    by (elim exE conjE) (rule that)
  from compare_classifies_every_row[of whole_floats bench cfg0 now0 three_rows 0 port0 res] run
  have c: "cmp_match res = count_status ''match'' (report res)"
    "cmp_mismatch res = count_status ''mismatch'' (report res)"
    "cmp_read_fail res = count_status ''read_fail'' (report res)"
    "cmp_skipped res = count_status ''skipped'' (report res)"
    "cmp_total res = length three_rows"
    by blast+
  have "cmp_match res + cmp_mismatch res = 1" "cmp_skipped res = 1" "cmp_read_fail res = 1"
    "cmp_total res = 3"
    using c st by (simp_all add: count_status_via_map three_rows_def)
  with run st never_raises_bench isclose_accepts_zero show ?thesis
    by (intro conjI exI[of _ res])
qed

subsection \<open>The comparator, step by step and under a swap\<close>












subsection \<open>Restore\<close>

lemma for_each_invariant:
  assumes step: "\<And>x st st'. body x st = Inr st' \<Longrightarrow> I st \<Longrightarrow> I st'"
  shows "for_each body xs st = Inr st' \<Longrightarrow> I st \<Longrightarrow> I st'"
proof (induction xs arbitrary: st)
  case Nil
  then show ?case by simp
next
  case (Cons x xs)
  from Cons.prems(1) obtain st1 where a: "body x st = Inr st1"
    and b: "for_each body xs st1 = Inr st'"
    by (auto split: sum.splits)
  from step[OF a Cons.prems(2)] Cons.IH[OF b] show ?case by blast
qed

lemma for_each_count:
  fixes f :: "'s \<Rightarrow> nat"
  assumes step: "\<And>x st st'. body x st = Inr st' \<Longrightarrow> f st' = f st + (if P x then 1 else 0)"
  shows "for_each body xs st = Inr st' \<Longrightarrow> f st' = f st + length (filter P xs)"
proof (induction xs arbitrary: st)
  case Nil
  then show ?case by simp
next
  case (Cons x xs)
  from Cons.prems obtain st1 where a: "body x st = Inr st1"
    and b: "for_each body xs st1 = Inr st'"
    by (auto split: sum.splits)
  from step[OF a] Cons.IH[OF b] show ?case by simp
qed

lemma for_each_log:
  assumes step: "\<And>x st st'. body x st = Inr st' \<Longrightarrow> f st' = f st @ [g x]"
  shows "for_each body xs st = Inr st' \<Longrightarrow> f st' = f st @ map g xs"
proof (induction xs arbitrary: st)
  case Nil
  then show ?case by simp
next
  case (Cons x xs)
  from Cons.prems obtain st1 where a: "body x st = Inr st1"
    and b: "for_each body xs st1 = Inr st'"
    by (auto split: sum.splits)
  from step[OF a] Cons.IH[OF b] show ?case by simp
qed

lemma restore_row_skip:
  "rst_skippable r \<Longrightarrow>
   restore_row F D e dry r st =
     Inr (st\<lparr>skip_count := skip_count st + 1, r_log := r_log st @ [skip_line r]\<rparr>)"
  unfolding restore_row_def rst_skippable_def skip_line_def Let_def by auto

lemma restore_row_dry:
  assumes "\<not> rst_skippable r" "restore_row F D e True r st = Inr st'"
  shows "st' = st\<lparr>dry_count := dry_count st + 1, r_log := r_log st @ [dry_run_line r]\<rparr>"
  using assms
  unfolding restore_row_def rst_skippable_def dry_run_line_def row_cmd_def restore_try_def Let_def
  by (auto split: sum.splits)

lemma restore_row_dry_any:
  assumes "restore_row F D e True r st = Inr st'"
  shows "r_port st' = r_port st \<and> write_count st' = write_count st
       \<and> bad_verify_count st' = bad_verify_count st \<and> write_fail_count st' = write_fail_count st
       \<and> failures st' = failures st
       \<and> skip_count st' = skip_count st + (if rst_skippable r then 1 else 0)
       \<and> dry_count st' = dry_count st + (if \<not> rst_skippable r then 1 else 0)
       \<and> r_log st' = r_log st @ [dry_run_line r]"
proof (cases "rst_skippable r")
  case True
  then show ?thesis using assms restore_row_skip[OF True, of F D e True st]
    by (auto simp: dry_run_line_def)
next
  case False
  from restore_row_dry[OF False assms] False show ?thesis by simp
qed

lemma restore_row_counts:
  assumes "restore_row F D e dry r st = Inr st'"
  shows "skip_count st' = skip_count st + (if rst_skippable r then 1 else 0)
       \<and> write_count st' + dry_count st' \<le> write_count st + dry_count st + (if \<not> rst_skippable r then 1 else 0)
       \<and> (failures st = bad_verify_count st + write_fail_count st \<longrightarrow>
            failures st' = bad_verify_count st' + write_fail_count st')"
proof (cases "rst_skippable r")
  case True
  then show ?thesis using assms restore_row_skip[OF True, of F D e dry st] by auto
next
  case False
  then show ?thesis using assms
    unfolding restore_row_def rst_skippable_def restore_try_def Let_def
    by (auto split: sum.splits prod.splits if_splits)
qed

lemma for_each_total_on:
  "(\<And>x st. x \<in> set xs \<Longrightarrow> \<exists>st'. body x st = Inr st') \<Longrightarrow> \<exists>st'. for_each body xs st = Inr st'"
proof (induction xs arbitrary: st)
  case Nil
  show ?case by simp
next
  case (Cons x xs)
  from Cons.prems[of x st] obtain st1 where "body x st = Inr st1" by auto
  moreover from Cons.IH[of st1] Cons.prems obtain st2 where "for_each body xs st1 = Inr st2"
    by auto
  ultimately show ?case by simp
qed

lemma restore_from_csv_Inr:
  assumes "restore_from_csv F D cfg now rows dry s = Inr res"
  shows "\<exists>idn s1 st.
       wire s1 = wire s @ query_exchange ''*IDN?'' (eol cfg) idn
     \<and> for_each (restore_row F D (eol cfg) dry) rows
          (restore_init s1 [restore_start now dry, info_line (line_text idn \<noteq> []) (line_text idn)])
        = Inr st
     \<and> rst_total res = length rows \<and> rst_skipped res = skip_count st
     \<and> rst_dry_run res = dry_count st \<and> rst_writes res = write_count st
     \<and> rst_bad_verify res = bad_verify_count st \<and> rst_write_fail res = write_fail_count st
     \<and> rst_failures res = failures st
     \<and> restore_log res = r_log st @ restore_end (failures st)
     \<and> restore_port res = r_port st"
proof -
  from assms obtain ok idn s1 where q: "try_query D ''*IDN?'' (eol cfg) s = (Inr (ok, idn), s1)"
    unfolding restore_from_csv_def by (auto split: prod.splits sum.splits)
  from try_query_Inr[OF q] obtain raw where raw:
    "ok \<longleftrightarrow> idn \<noteq> []" "wire s1 = wire s @ query_exchange ''*IDN?'' (eol cfg) raw"
    "idn = line_text raw"
    unfolding line_text_def by blast
  from assms q obtain st where
    loop: "for_each (restore_row F D (eol cfg) dry) rows
          (restore_init s1 [restore_start now dry, info_line ok idn]) = Inr st"
    and res: "res = \<lparr>rst_total = length rows, rst_skipped = skip_count st,
                 rst_dry_run = dry_count st, rst_writes = write_count st,
                 rst_bad_verify = bad_verify_count st,
                 rst_write_fail = write_fail_count st, rst_failures = failures st,
                 restore_log = r_log st @ restore_end (failures st),
                 restore_port = r_port st\<rparr>"
    unfolding restore_from_csv_def restore_init_def restore_start_def restore_end_def Let_def
    by (auto split: sum.splits)
  show ?thesis using raw loop res
    by (intro exI[of _ raw] exI[of _ s1] exI[of _ st]) simp
qed

lemma restore_from_csv_total:
  assumes q: "try_query D ''*IDN?'' (eol cfg) s = (Inr (ok, idn), s1)"
    and loop: "for_each (restore_row F D (eol cfg) dry) rows
          (restore_init s1 [restore_start now dry, info_line ok idn]) = Inr st"
  shows "\<exists>res. restore_from_csv F D cfg now rows dry s = Inr res"
  using q loop
  unfolding restore_from_csv_def restore_init_def restore_start_def Let_def by simp

lemma restore_row_dry_total:
  "buildable r \<Longrightarrow> \<exists>st'. restore_row F D e True r st = Inr st'"
  unfolding buildable_def restore_row_def rst_skippable_def restore_try_def full_cmd_def Let_def
  by (auto split: sum.splits)

lemma dry_run_total:
  assumes "never_raises D" "list_all buildable rows"
  shows "\<exists>res. restore_from_csv F D cfg now rows True s = Inr res"
proof -
  obtain ok idn s1 where q: "try_query D ''*IDN?'' (eol cfg) s = (Inr (ok, idn), s1)"
    using try_query_total[OF assms(1)] by blast
  have "\<And>x st. x \<in> set rows \<Longrightarrow> \<exists>st'. restore_row F D (eol cfg) True x st = Inr st'"
    using assms(2) by (simp add: list_all_iff restore_row_dry_total)
  from for_each_total_on[of rows "restore_row F D (eol cfg) True", OF this]
  obtain st where "for_each (restore_row F D (eol cfg) True) rows
          (restore_init s1 [restore_start now True, info_line ok idn]) = Inr st"
    by blast
  with q show ?thesis by (rule restore_from_csv_total)
qed

lemma restore_loop_counts:
  assumes "for_each (restore_row F D e dry) rows st = Inr st'"
  shows "skip_count st' = skip_count st + length (filter rst_skippable rows)"
    and "write_count st' + dry_count st' \<le>
         write_count st + dry_count st + length (filter (\<lambda>r. \<not> rst_skippable r) rows)"
    and "failures st = bad_verify_count st + write_fail_count st \<Longrightarrow>
         failures st' = bad_verify_count st' + write_fail_count st'"
proof -
  show "skip_count st' = skip_count st + length (filter rst_skippable rows)"
    using assms restore_row_counts
    by (intro for_each_count[of "restore_row F D e dry" skip_count rst_skippable]) blast+
  show "failures st = bad_verify_count st + write_fail_count st \<Longrightarrow>
         failures st' = bad_verify_count st' + write_fail_count st'"
    using assms restore_row_counts
    by (intro for_each_invariant[of "restore_row F D e dry"
          "\<lambda>st. failures st = bad_verify_count st + write_fail_count st" rows st st']) blast+
  show "write_count st' + dry_count st' \<le>
         write_count st + dry_count st + length (filter (\<lambda>r. \<not> rst_skippable r) rows)"
    using assms
  proof (induction rows arbitrary: st)
    case Nil
    then show ?case by simp
  next
    case (Cons r rows)
    from Cons.prems obtain st1 where a: "restore_row F D e dry r st = Inr st1"
      and b: "for_each (restore_row F D e dry) rows st1 = Inr st'"
      by (auto split: sum.splits)
    from restore_row_counts[OF a] Cons.IH[OF b] show ?case by auto
  qed
qed

lemma dry_loop:
  assumes "for_each (restore_row F D e True) rows st = Inr st'"
  shows "r_port st' = r_port st" "write_count st' = write_count st"
    "bad_verify_count st' = bad_verify_count st" "write_fail_count st' = write_fail_count st"
    "failures st' = failures st"
    "dry_count st' = dry_count st + length (filter (\<lambda>r. \<not> rst_skippable r) rows)"
    "r_log st' = r_log st @ map dry_run_line rows"
proof -
  note step = restore_row_dry_any[of F D e]
  show "r_port st' = r_port st"
    using assms step
    by (intro for_each_invariant[of "restore_row F D e True" "\<lambda>x. r_port x = r_port st" rows st st'])
       auto
  show "write_count st' = write_count st"
    using assms step
    by (intro for_each_invariant[of "restore_row F D e True" "\<lambda>x. write_count x = write_count st" rows st st'])
       auto
  show "bad_verify_count st' = bad_verify_count st"
    using assms step
    by (intro for_each_invariant[of "restore_row F D e True" "\<lambda>x. bad_verify_count x = bad_verify_count st" rows st st'])
       auto
  show "write_fail_count st' = write_fail_count st"
    using assms step
    by (intro for_each_invariant[of "restore_row F D e True" "\<lambda>x. write_fail_count x = write_fail_count st" rows st st'])
       auto
  show "failures st' = failures st"
    using assms step
    by (intro for_each_invariant[of "restore_row F D e True" "\<lambda>x. failures x = failures st" rows st st'])
       auto
  show "dry_count st' = dry_count st + length (filter (\<lambda>r. \<not> rst_skippable r) rows)"
    using assms step
    by (intro for_each_count[of "restore_row F D e True" dry_count "\<lambda>r. \<not> rst_skippable r"]) auto
  show "r_log st' = r_log st @ map dry_run_line rows"
    using assms step
    by (intro for_each_log[of "restore_row F D e True" r_log dry_run_line]) auto
qed

lemma for_each_each:
  "for_each body xs st = Inr st' \<Longrightarrow> x \<in> set xs \<Longrightarrow> \<exists>st1 st2. body x st1 = Inr st2"
proof (induction xs arbitrary: st)
  case Nil
  then show ?case by simp
next
  case (Cons y ys)
  from Cons.prems(1) obtain st1 where a: "body y st = Inr st1"
    and b: "for_each body ys st1 = Inr st'"
    by (auto split: sum.splits)
  show ?case
  proof (cases "x = y")
    case True
    with a show ?thesis by blast
  next
    case False
    with Cons.prems(2) have "x \<in> set ys" by simp
    from Cons.IH[OF b this] show ?thesis .
  qed
qed

lemma restore_row_buildable: "restore_row F D e dry r st = Inr st' \<Longrightarrow> buildable r"
  unfolding restore_row_def buildable_def rst_skippable_def full_cmd_def Let_def
  by (auto split: if_splits sum.splits)

lemma restore_loop_buildable:
  assumes "for_each (restore_row F D e dry) rows st = Inr st'"
  shows "list_all buildable rows"
  unfolding list_all_iff
proof
  fix r assume "r \<in> set rows"
  from for_each_each[OF assms this] obtain st1 st2 where "restore_row F D e dry r st1 = Inr st2"
    by blast
  then show "buildable r" by (rule restore_row_buildable)
qed

text \<open>
  Claim C2. A row whose trimmed write command or trimmed value is empty leaves the loop
  state as it was, but for the skipped counter, which grows by one, and the log, which gets
  the \<open>[SKIP]\<close> line: the port is untouched (nothing is written for the row) and the writes
  counter does not move. Over a whole run, \<open>skipped\<close> is the number of such rows, and the
  rows written (or listed by a dry run) are at most the other rows.
\<close>

theorem restore_skips_blank_rows:
  "(rst_skippable r \<longrightarrow>
      restore_row F D e dry r st =
        Inr (st\<lparr>skip_count := skip_count st + 1, r_log := r_log st @ [skip_line r]\<rparr>))
   \<and> (restore_from_csv F D cfg now rows dry s = Inr res \<longrightarrow>
        rst_skipped res = length (filter rst_skippable rows)
      \<and> rst_writes res + rst_dry_run res \<le> length (filter (\<lambda>r. \<not> rst_skippable r) rows))"
proof (intro conjI impI)
  assume "rst_skippable r"
  then show "restore_row F D e dry r st =
        Inr (st\<lparr>skip_count := skip_count st + 1, r_log := r_log st @ [skip_line r]\<rparr>)"
    by (rule restore_row_skip)
next
  assume run: "restore_from_csv F D cfg now rows dry s = Inr res"
  from restore_from_csv_Inr[OF run] obtain idn s1 st where
    loop: "for_each (restore_row F D (eol cfg) dry) rows
          (restore_init s1 [restore_start now dry, info_line (line_text idn \<noteq> []) (line_text idn)])
        = Inr st"
    and res: "rst_skipped res = skip_count st" "rst_dry_run res = dry_count st"
      "rst_writes res = write_count st"
    by blast
  from restore_loop_counts(1)[OF loop] res
  show "rst_skipped res = length (filter rst_skippable rows)"
    by (simp add: restore_init_def)
  from restore_loop_counts(2)[OF loop] res
  show "rst_writes res + rst_dry_run res \<le> length (filter (\<lambda>r. \<not> rst_skippable r) rows)"
    by (simp add: restore_init_def)
qed

text \<open>
  Claim C9, as amended. A dry run does use the transport once, for the \<open>*IDN?\<close> sanity
  query that opens every restore; the rows add nothing to the wire. Whenever the run
  returns, the log holds, after its two opening lines, one line per row in order: the
  \<open>[SKIP]\<close> line of a skipped row, or the \<open>[DRY ]\<close> line with the full write command of any
  other row (every such command could be built). The dry-run counter is the number of rows
  not skipped, and the writes, bad-verify, write-exception and failure counters are zero.
  The run returns on a port that never raises when every command can be built.
\<close>

theorem dry_run_only_sanity_query:
  "(restore_from_csv F D cfg now rows True s = Inr res \<longrightarrow>
      (\<exists>idn. wire (restore_port res) = wire s @ query_exchange ''*IDN?'' (eol cfg) idn
          \<and> restore_log res =
              [restore_start now True, info_line (line_text idn \<noteq> []) (line_text idn)] @
              map dry_run_line rows @ restore_end 0)
    \<and> list_all buildable rows
    \<and> rst_writes res = 0 \<and> rst_bad_verify res = 0 \<and> rst_write_fail res = 0
    \<and> rst_failures res = 0
    \<and> rst_dry_run res = length (filter (\<lambda>r. \<not> rst_skippable r) rows)
    \<and> rst_skipped res = length (filter rst_skippable rows)
    \<and> rst_total res = length rows)
   \<and> (never_raises D \<and> list_all buildable rows \<longrightarrow>
        (\<exists>res. restore_from_csv F D cfg now rows True s = Inr res))"
proof (intro conjI impI)
  assume run: "restore_from_csv F D cfg now rows True s = Inr res"
  from restore_from_csv_Inr[OF run] obtain idn s1 st where
    w: "wire s1 = wire s @ query_exchange ''*IDN?'' (eol cfg) idn"
    and loop: "for_each (restore_row F D (eol cfg) True) rows
          (restore_init s1 [restore_start now True, info_line (line_text idn \<noteq> []) (line_text idn)])
        = Inr st"
    and res: "rst_total res = length rows" "rst_skipped res = skip_count st"
      "rst_dry_run res = dry_count st" "rst_writes res = write_count st"
      "rst_bad_verify res = bad_verify_count st" "rst_write_fail res = write_fail_count st"
      "rst_failures res = failures st"
      "restore_log res = r_log st @ restore_end (failures st)"
      "restore_port res = r_port st"
    by blast
  note d = dry_loop[OF loop]
  have f0: "failures st = 0" using d(5) by (simp add: restore_init_def)
  show "\<exists>idn. wire (restore_port res) = wire s @ query_exchange ''*IDN?'' (eol cfg) idn
          \<and> restore_log res =
              [restore_start now True, info_line (line_text idn \<noteq> []) (line_text idn)] @
              map dry_run_line rows @ restore_end 0"
    using w res(8,9) d(1,7) f0 by (intro exI[of _ idn]) (simp add: restore_init_def)
  show "list_all buildable rows" using loop by (rule restore_loop_buildable)
  show "rst_writes res = 0" using res(4) d(2) by (simp add: restore_init_def)
  show "rst_bad_verify res = 0" using res(5) d(3) by (simp add: restore_init_def)
  show "rst_write_fail res = 0" using res(6) d(4) by (simp add: restore_init_def)
  show "rst_failures res = 0" using res(7) f0 by simp
  show "rst_dry_run res = length (filter (\<lambda>r. \<not> rst_skippable r) rows)"
    using res(3) d(6) by (simp add: restore_init_def)
  show "rst_skipped res = length (filter rst_skippable rows)"
    using res(2) restore_loop_counts(1)[OF loop] by (simp add: restore_init_def)
  show "rst_total res = length rows" by (rule res(1))
next
  assume "never_raises D \<and> list_all buildable rows"
  then show "\<exists>res. restore_from_csv F D cfg now rows True s = Inr res"
    by (auto intro: dry_run_total)
qed

lemmas restore_run_defs = restore_from_csv_def restore_row_def restore_try_def full_cmd_def
  parts_of_def split_ws1_def startswith_def status_line_def compare_values_def
  to_float_or_none_def info_line_def Let_def

lemmas example_defs = three_rows_def row_of_def item_defs bench_defs str_nat.simps
  whole_floats_def now0_def

lemma three_rows_buildable: "list_all buildable three_rows"
  by (simp add: buildable_def rst_skippable_def parts_of_def example_defs strip_def lstrip_def
      rstrip_def isspace_def)

text \<open>
  The claim as first stated fails on a dry run over one row with no value: the wire, empty
  before, carries the sanity query afterwards, and the row is logged as skipped, with no
  write command built for it.
\<close>

theorem dry_run_sends_sanity_query_counterexample:
  "wire port0 = [] \<and>
   restore_from_csv whole_floats bench cfg0 now0 [row_of (cbt_item 5) []] True port0 =
     Inr \<lparr>rst_total = 1, rst_skipped = 1, rst_dry_run = 0, rst_writes = 0,
          rst_bad_verify = 0, rst_write_fail = 0, rst_failures = 0,
          restore_log =
            [''\<newline>--- RESTORE START Wed Nov  4 12:00:00 2026 | dry_run=True ---\<newline>'',
             ''[INFO] *IDN? -> StanfordResearchSystems,SR720\<newline>'',
             ''[SKIP] CBT[5] | cmd_write='' @ [CHR 0x27] @ ''$CBT 5'' @ [CHR 0x27] @
               '' value='' @ [CHR 0x27, CHR 0x27] @ ''\<newline>'',
             ''--- RESTORE END (failures=0) ---\<newline>''],
          restore_port =
            \<lparr>dev_state = [],
             wire = [Sent ''\<newline>'', Sent ''*IDN?\<newline>'', Sent ''\<newline>'',
                     Received ''StanfordResearchSystems,SR720\<newline>'']\<rparr>\<rparr>"
  by (simp add: restore_run_defs example_defs port_run_defs)

theorem restore_skips_blank_rows_witness:
  "rst_skippable (row_of (cbt_item 5) []) \<and>
   restore_row whole_floats bench ''\<newline>'' False (row_of (cbt_item 5) []) (restore_init port0 []) =
     Inr ((restore_init port0 [])\<lparr>skip_count := 1,
            r_log := [skip_line (row_of (cbt_item 5) [])]\<rparr>) \<and>
   (\<exists>res. restore_from_csv whole_floats bench cfg0 now0 three_rows False port0 = Inr res \<and>
      rst_skipped res = 1 \<and> rst_writes res + rst_dry_run res \<le> 2)"
proof -
  have sk: "rst_skippable (row_of (cbt_item 5) [])"
    by (simp add: rst_skippable_def row_of_def strip_def lstrip_def rstrip_def)
  have "\<exists>res. restore_from_csv whole_floats bench cfg0 now0 three_rows False port0 = Inr res"
    by (simp add: restore_run_defs example_defs port_run_defs)
  then obtain res where
    run: "restore_from_csv whole_floats bench cfg0 now0 three_rows False port0 = Inr res" ..
  have n: "length (filter rst_skippable three_rows) = 1"
    "length (filter (\<lambda>r. \<not> rst_skippable r) three_rows) = 2"
    by (simp_all add: rst_skippable_def example_defs strip_def lstrip_def rstrip_def isspace_def)
  from restore_skips_blank_rows[of "row_of (cbt_item 5) []" whole_floats bench "''\<newline>''" False
      "restore_init port0 []" cfg0 now0 three_rows port0 res] sk run n
  show ?thesis by (auto simp: restore_init_def)
qed

theorem dry_run_only_sanity_query_witness:
  "never_raises bench \<and> list_all buildable three_rows \<and>
   (\<exists>res. restore_from_csv whole_floats bench cfg0 now0 three_rows True port0 = Inr res \<and>
      wire (restore_port res) =
        query_exchange ''*IDN?'' ''\<newline>'' ''StanfordResearchSystems,SR720\<newline>'' \<and>
      rst_dry_run res = 2 \<and> rst_skipped res = 1 \<and> rst_writes res = 0 \<and>
      rst_bad_verify res = 0 \<and> rst_write_fail res = 0 \<and> rst_failures res = 0)"
proof -
  have "\<exists>res. restore_from_csv whole_floats bench cfg0 now0 three_rows True port0 = Inr res \<and>
      wire (restore_port res) =
        query_exchange ''*IDN?'' ''\<newline>'' ''StanfordResearchSystems,SR720\<newline>''"
    by (simp add: restore_run_defs example_defs port_run_defs)
  then obtain res where
    run: "restore_from_csv whole_floats bench cfg0 now0 three_rows True port0 = Inr res"
    and w: "wire (restore_port res) =
        query_exchange ''*IDN?'' ''\<newline>'' ''StanfordResearchSystems,SR720\<newline>''"
    by (elim exE conjE) (rule that)
  have n: "length (filter rst_skippable three_rows) = 1"
    "length (filter (\<lambda>r. \<not> rst_skippable r) three_rows) = 2"
    by (simp_all add: rst_skippable_def example_defs strip_def lstrip_def rstrip_def isspace_def)
  from dry_run_only_sanity_query[of whole_floats bench cfg0 now0 three_rows port0 res] run n
  have "rst_dry_run res = 2" "rst_skipped res = 1" "rst_writes res = 0"
    "rst_bad_verify res = 0" "rst_write_fail res = 0" "rst_failures res = 0"
    by simp_all
  with run w never_raises_bench three_rows_buildable show ?thesis
    by (intro conjI exI[of _ res])
qed

lemma strip_hd_nonspace:
  assumes ne: "strip s \<noteq> []"
  shows "\<not> isspace (hd (strip s))"
proof -
  let ?t = "dropWhile isspace s"
  have st: "strip s = rev (dropWhile isspace (rev ?t))"
    by (simp add: strip_def lstrip_def rstrip_def)
  have "rev ?t = takeWhile isspace (rev ?t) @ dropWhile isspace (rev ?t)" by simp
  then have "?t = rev (dropWhile isspace (rev ?t)) @ rev (takeWhile isspace (rev ?t))"
    by (metis rev_append rev_rev_ident)
  then have split: "?t = strip s @ rev (takeWhile isspace (rev ?t))" using st by simp
  then have t: "?t \<noteq> []" using ne by (metis append_is_Nil_conv)
  have "hd ?t = hd (strip s)" using split ne by (metis hd_append2)
  then show ?thesis using hd_dropWhile[OF t] by simp
qed

lemma strip_Nil [simp]: "strip [] = []"
  by (simp add: strip_def lstrip_def rstrip_def)

lemma strip_strip [simp]: "strip (strip s) = strip s"
proof (cases "strip s = []")
  case True
  then show ?thesis by simp
next
  case False
  then show ?thesis by (intro strip_id strip_hd_nonspace strip_last_nonspace)
qed

lemma restore_row_send_raises:
  assumes "\<not> rst_skippable r" "full_cmd (strip (cmd_write r)) (strip (val r)) = Inr full"
    and "send_cmd D full e (r_port st) = (Inl x, s1)"
  shows "restore_row F D e False r st =
     Inr (st\<lparr>r_port := s1, write_fail_count := write_fail_count st + 1,
             failures := failures st + 1, r_log := r_log st @ [fail_line r full x]\<rparr>)"
  using assms unfolding restore_row_def rst_skippable_def restore_try_def fail_line_def Let_def
  by simp

lemma restore_row_no_read_command:
  assumes "\<not> rst_skippable r" "full_cmd (strip (cmd_write r)) (strip (val r)) = Inr full"
    and "send_cmd D full e (r_port st) = (Inr u, s1)" "strip (cmd_read r) = []"
  shows "restore_row F D e False r st =
     Inr (st\<lparr>r_port := s1, write_count := write_count st + 1,
             r_log := r_log st @
               [status_line ''[ OK ]'' (strip (key r)) full (strip (val r)) []]\<rparr>)"
  using assms unfolding restore_row_def rst_skippable_def restore_try_def Let_def
  by simp

lemma restore_row_verified:
  assumes "\<not> rst_skippable r" "full_cmd (strip (cmd_write r)) (strip (val r)) = Inr full"
    and "send_cmd D full e (r_port st) = (Inr u, s1)" "strip (cmd_read r) \<noteq> []"
    and q: "try_query D (strip (cmd_read r)) e s1 = (Inr (ok2, verify), s2)" and "verify \<noteq> []"
    and "compare_values F (strip (val r)) verify (f_zero F) = Inr (m, d)"
  shows "restore_row F D e False r st =
     Inr (st\<lparr>r_port := s2, write_count := write_count st + 1,
             bad_verify_count := bad_verify_count st + (if m then 0 else 1),
             failures := failures st + (if m then 0 else 1),
             r_log := r_log st @
               [status_line (if m then ''[ OK ]'' else ''[BAD ]'') (strip (key r)) full
                  (strip (val r)) verify]\<rparr>)"
proof -
  from try_query_Inr[OF q] have ok: "ok2" and sv: "strip verify = verify"
    using \<open>verify \<noteq> []\<close> by auto
  show ?thesis using assms ok sv
    unfolding restore_row_def rst_skippable_def restore_try_def Let_def
    by (cases m) simp_all
qed

lemma restore_row_no_response:
  assumes "\<not> rst_skippable r" "full_cmd (strip (cmd_write r)) (strip (val r)) = Inr full"
    and "send_cmd D full e (r_port st) = (Inr u, s1)" "strip (cmd_read r) \<noteq> []"
    and q: "try_query D (strip (cmd_read r)) e s1 = (Inr (ok2, []), s2)"
  shows "restore_row F D e False r st =
     Inr (st\<lparr>r_port := s2, write_count := write_count st + 1,
             r_log := r_log st @
               [status_line ''[ OK ]'' (strip (key r)) full (strip (val r))
                  ''(no response)'']\<rparr>)"
proof -
  from try_query_Inr[OF q] have ok: "\<not> ok2" by auto
  show ?thesis using assms ok
    unfolding restore_row_def rst_skippable_def restore_try_def Let_def
    by simp
qed

lemma restore_row_query_raises:
  assumes "\<not> rst_skippable r" "full_cmd (strip (cmd_write r)) (strip (val r)) = Inr full"
    and "send_cmd D full e (r_port st) = (Inr u, s1)" "strip (cmd_read r) \<noteq> []"
    and q: "try_query D (strip (cmd_read r)) e s1 = (Inl x, s2)"
  shows "restore_row F D e False r st =
     Inr (st\<lparr>r_port := s2, write_count := write_count st + 1,
             write_fail_count := write_fail_count st + 1, failures := failures st + 1,
             r_log := r_log st @ [fail_line r full x]\<rparr>)"
  using assms unfolding restore_row_def rst_skippable_def restore_try_def fail_line_def Let_def
  by simp

lemma restore_failures_sum:
  assumes "restore_from_csv F D cfg now rows dry s = Inr res"
  shows "rst_failures res = rst_bad_verify res + rst_write_fail res"
proof -
  from restore_from_csv_Inr[OF assms] obtain idn s1 st where
    loop: "for_each (restore_row F D (eol cfg) dry) rows
          (restore_init s1 [restore_start now dry, info_line (line_text idn \<noteq> []) (line_text idn)])
        = Inr st"
    and res: "rst_bad_verify res = bad_verify_count st" "rst_write_fail res = write_fail_count st"
      "rst_failures res = failures st"
    by blast
  from restore_loop_counts(3)[OF loop] res show ?thesis by (simp add: restore_init_def)
qed

text \<open>
  Claim C6, as amended. In a restore that is not a dry run, take a row that is not skipped
  and whose command \<open>full\<close> was built. If sending the command raises, the write-exception
  and failure counters grow by one and the row is logged \<open>[FAIL]\<close>. If it is sent, the
  writes counter grows by one, and a readback query follows exactly when the trimmed read
  command is not empty. A non-empty readback is compared with the expected value by the
  comparator at zero tolerance: a mismatch adds one to the bad-verify and failure counters
  and is logged \<open>[BAD ]\<close>, a match is logged \<open>[ OK ]\<close>. An empty readback is not compared:
  the row is logged \<open>[ OK ]\<close> with \<open>verify=(no response)\<close> and counts as no failure. A
  readback query that raises counts as a write exception. At the end of every run,
  \<open>failures = bad_verify + write_fail\<close>.
\<close>

theorem restore_verifies_after_write:
  "(\<not> rst_skippable r \<and> full_cmd (strip (cmd_write r)) (strip (val r)) = Inr full \<longrightarrow>
      (send_cmd D full e (r_port st) = (Inl x, sw) \<longrightarrow>
         restore_row F D e False r st =
           Inr (st\<lparr>r_port := sw, write_fail_count := write_fail_count st + 1,
                   failures := failures st + 1, r_log := r_log st @ [fail_line r full x]\<rparr>))
    \<and> (send_cmd D full e (r_port st) = (Inr u, sw) \<and> strip (cmd_read r) = [] \<longrightarrow>
         restore_row F D e False r st =
           Inr (st\<lparr>r_port := sw, write_count := write_count st + 1,
                   r_log := r_log st @
                     [status_line ''[ OK ]'' (strip (key r)) full (strip (val r)) []]\<rparr>))
    \<and> (send_cmd D full e (r_port st) = (Inr u, sw) \<and> strip (cmd_read r) \<noteq> [] \<longrightarrow>
         (try_query D (strip (cmd_read r)) e sw = (Inr (okv, verify), sq) \<and> verify \<noteq> [] \<and>
          compare_values F (strip (val r)) verify (f_zero F) = Inr (m, d) \<longrightarrow>
            restore_row F D e False r st =
              Inr (st\<lparr>r_port := sq, write_count := write_count st + 1,
                      bad_verify_count := bad_verify_count st + (if m then 0 else 1),
                      failures := failures st + (if m then 0 else 1),
                      r_log := r_log st @
                        [status_line (if m then ''[ OK ]'' else ''[BAD ]'') (strip (key r)) full
                           (strip (val r)) verify]\<rparr>))
       \<and> (try_query D (strip (cmd_read r)) e sw = (Inr (okv, []), sq) \<longrightarrow>
            restore_row F D e False r st =
              Inr (st\<lparr>r_port := sq, write_count := write_count st + 1,
                      r_log := r_log st @
                        [status_line ''[ OK ]'' (strip (key r)) full (strip (val r))
                           ''(no response)'']\<rparr>))
       \<and> (try_query D (strip (cmd_read r)) e sw = (Inl x, sq) \<longrightarrow>
            restore_row F D e False r st =
              Inr (st\<lparr>r_port := sq, write_count := write_count st + 1,
                      write_fail_count := write_fail_count st + 1,
                      failures := failures st + 1,
                      r_log := r_log st @ [fail_line r full x]\<rparr>))))
   \<and> (restore_from_csv F D cfg now rows dry s = Inr res \<longrightarrow>
        rst_failures res = rst_bad_verify res + rst_write_fail res)"
  using restore_row_send_raises[of r full D e st x sw F]
    restore_row_no_read_command[of r full D e st u sw F]
    restore_row_verified[of r full D e st u sw okv verify sq F m d]
    restore_row_no_response[of r full D e st u sw okv sq F]
    restore_row_query_raises[of r full D e st u sw x sq F]
    restore_failures_sum[of F D cfg now rows dry s res]
  by blast

text \<open>
  The claim as first stated fails on a row whose readback query is left unanswered: the
  query is made and reads an empty line, the comparator at zero tolerance calls the
  expected value and that readback a mismatch, yet the run counts no bad verification and
  no failure, and logs the row \<open>[ OK ]\<close>.
\<close>

theorem verify_skips_empty_readback_counterexample:
  "restore_from_csv whole_floats bench cfg0 now0 [row_of rnd_item ''1''] False port0 =
     Inr \<lparr>rst_total = 1, rst_skipped = 0, rst_dry_run = 0, rst_writes = 1,
          rst_bad_verify = 0, rst_write_fail = 0, rst_failures = 0,
          restore_log =
            [''\<newline>--- RESTORE START Wed Nov  4 12:00:00 2026 | dry_run=False ---\<newline>'',
             ''[INFO] *IDN? -> StanfordResearchSystems,SR720\<newline>'',
             ''[ OK ] RND | $RND 1 | expected=1 verify=(no response)\<newline>'',
             ''--- RESTORE END (failures=0) ---\<newline>''],
          restore_port =
            \<lparr>dev_state = [],
             wire = [Sent ''\<newline>'', Sent ''*IDN?\<newline>'', Sent ''\<newline>'',
                     Received ''StanfordResearchSystems,SR720\<newline>'',
                     Sent ''\<newline>'', Sent ''$RND 1\<newline>'',
                     Sent ''\<newline>'', Sent ''$RND?\<newline>'', Sent ''\<newline>'', Received []]\<rparr>\<rparr>
   \<and> compare_values whole_floats ''1'' (line_text []) (f_zero whole_floats) = Inr (False, [])"
  by (simp add: restore_run_defs example_defs port_run_defs line_text_def digits_value_def)

lemmas row_run_defs = restore_run_defs example_defs port_run_defs line_text_def digits_value_def
  rst_skippable_def fail_line_def flaky_def st0_def restore_init_def

theorem restore_verifies_after_write_witness:
  "restore_row whole_floats flaky ''\<newline>'' False (row_of rnd_item ''2'') st0 =
     Inr (st0\<lparr>r_port := \<lparr>dev_state = [], wire = [Sent ''\<newline>'', Sent ''$RND 2\<newline>'']\<rparr>,
              write_fail_count := 1, failures := 1,
              r_log := [''[FAIL] RND | $RND 2 | error=Write timeout\<newline>'']\<rparr>)
   \<and> restore_row whole_floats bench ''\<newline>'' False (row_of (frq_item\<lparr>cmd_read := ''  ''\<rparr>) ''12'') st0 =
     Inr (st0\<lparr>r_port := \<lparr>dev_state = ''$FRQ 12\<newline>'',
                            wire = [Sent ''\<newline>'', Sent ''$FRQ 12\<newline>'']\<rparr>,
              write_count := 1,
              r_log := [''[ OK ] FRQ | $FRQ 12 | expected=12 verify=\<newline>'']\<rparr>)
   \<and> restore_row whole_floats bench ''\<newline>'' False (row_of frq_item ''13'') st0 =
     Inr (st0\<lparr>r_port := \<lparr>dev_state = [],
                            wire = [Sent ''\<newline>'', Sent ''$FRQ 13\<newline>'', Sent ''\<newline>'',
                                    Sent ''$FRQ?\<newline>'', Sent ''\<newline>'', Received ''12\<newline>'']\<rparr>,
              write_count := 1, bad_verify_count := 1, failures := 1,
              r_log := [''[BAD ] FRQ | $FRQ 13 | expected=13 verify=12\<newline>'']\<rparr>)
   \<and> restore_row whole_floats bench ''\<newline>'' False (row_of rnd_item ''1'') st0 =
     Inr (st0\<lparr>r_port := \<lparr>dev_state = [],
                            wire = [Sent ''\<newline>'', Sent ''$RND 1\<newline>'', Sent ''\<newline>'',
                                    Sent ''$RND?\<newline>'', Sent ''\<newline>'', Received []]\<rparr>,
              write_count := 1,
              r_log := [''[ OK ] RND | $RND 1 | expected=1 verify=(no response)\<newline>'']\<rparr>)
   \<and> restore_row whole_floats flaky ''\<newline>'' False
        (row_of (frq_item\<lparr>cmd_read := ''$RND 2''\<rparr>) ''12'') st0 =
     Inr (st0\<lparr>r_port := \<lparr>dev_state = ''$FRQ 12\<newline>'',
                            wire = [Sent ''\<newline>'', Sent ''$FRQ 12\<newline>'', Sent ''\<newline>'',
                                    Sent ''$RND 2\<newline>'']\<rparr>,
              write_count := 1, write_fail_count := 1, failures := 1,
              r_log := [''[FAIL] FRQ | $FRQ 12 | error=Write timeout\<newline>'']\<rparr>)
   \<and> (\<exists>res. restore_from_csv whole_floats flaky cfg0 now0
              [row_of rnd_item ''2'', row_of frq_item ''13'', row_of (cbt_item 5) ''200'']
              False port0 = Inr res
          \<and> rst_failures res = 2 \<and> rst_bad_verify res = 1 \<and> rst_write_fail res = 1
          \<and> rst_failures res = rst_bad_verify res + rst_write_fail res)"
proof -
  let ?nl = "''\<newline>''"
  have i1: "restore_row whole_floats flaky ?nl False (row_of rnd_item ''2'') st0 =
     Inr (st0\<lparr>r_port := \<lparr>dev_state = [], wire = [Sent ''\<newline>'', Sent ''$RND 2\<newline>'']\<rparr>,
              write_fail_count := 1, failures := 1,
              r_log := [''[FAIL] RND | $RND 2 | error=Write timeout\<newline>'']\<rparr>)"
    using restore_verifies_after_write[where r = "row_of rnd_item ''2''" and full = "''$RND 2''"
        and D = flaky and e = ?nl and st = st0 and x = "SerialException ''Write timeout''"
        and sw = "\<lparr>dev_state = [], wire = [Sent ''\<newline>'', Sent ''$RND 2\<newline>'']\<rparr>"
        and F = whole_floats]
    by (simp add: row_run_defs)
  have i2: "restore_row whole_floats bench ?nl False
       (row_of (frq_item\<lparr>cmd_read := ''  ''\<rparr>) ''12'') st0 =
     Inr (st0\<lparr>r_port := \<lparr>dev_state = ''$FRQ 12\<newline>'',
                            wire = [Sent ''\<newline>'', Sent ''$FRQ 12\<newline>'']\<rparr>,
              write_count := 1,
              r_log := [''[ OK ] FRQ | $FRQ 12 | expected=12 verify=\<newline>'']\<rparr>)"
    using restore_verifies_after_write[where r = "row_of (frq_item\<lparr>cmd_read := ''  ''\<rparr>) ''12''"
        and full = "''$FRQ 12''" and D = bench and e = ?nl and st = st0 and u = "()"
        and sw = "\<lparr>dev_state = ''$FRQ 12\<newline>'', wire = [Sent ''\<newline>'', Sent ''$FRQ 12\<newline>'']\<rparr>"
        and F = whole_floats]
    by (simp add: row_run_defs)
  have i3: "restore_row whole_floats bench ?nl False (row_of frq_item ''13'') st0 =
     Inr (st0\<lparr>r_port := \<lparr>dev_state = [],
                            wire = [Sent ''\<newline>'', Sent ''$FRQ 13\<newline>'', Sent ''\<newline>'',
                                    Sent ''$FRQ?\<newline>'', Sent ''\<newline>'', Received ''12\<newline>'']\<rparr>,
              write_count := 1, bad_verify_count := 1, failures := 1,
              r_log := [''[BAD ] FRQ | $FRQ 13 | expected=13 verify=12\<newline>'']\<rparr>)"
    using restore_verifies_after_write[where r = "row_of frq_item ''13''"
        and full = "''$FRQ 13''" and D = bench and e = ?nl and st = st0 and u = "()"
        and sw = "\<lparr>dev_state = ''$FRQ 13\<newline>'', wire = [Sent ''\<newline>'', Sent ''$FRQ 13\<newline>'']\<rparr>"
        and okv = True and verify = "''12''"
        and sq = "\<lparr>dev_state = [],
                   wire = [Sent ''\<newline>'', Sent ''$FRQ 13\<newline>'', Sent ''\<newline>'',
                           Sent ''$FRQ?\<newline>'', Sent ''\<newline>'', Received ''12\<newline>'']\<rparr>"
        and m = False and d = "''-1''" and F = whole_floats]
    by (simp add: row_run_defs)
  have i4: "restore_row whole_floats bench ?nl False (row_of rnd_item ''1'') st0 =
     Inr (st0\<lparr>r_port := \<lparr>dev_state = [],
                            wire = [Sent ''\<newline>'', Sent ''$RND 1\<newline>'', Sent ''\<newline>'',
                                    Sent ''$RND?\<newline>'', Sent ''\<newline>'', Received []]\<rparr>,
              write_count := 1,
              r_log := [''[ OK ] RND | $RND 1 | expected=1 verify=(no response)\<newline>'']\<rparr>)"
    using restore_verifies_after_write[where r = "row_of rnd_item ''1''"
        and full = "''$RND 1''" and D = bench and e = ?nl and st = st0 and u = "()"
        and sw = "\<lparr>dev_state = ''$RND 1\<newline>'', wire = [Sent ''\<newline>'', Sent ''$RND 1\<newline>'']\<rparr>"
        and okv = False
        and sq = "\<lparr>dev_state = [],
                   wire = [Sent ''\<newline>'', Sent ''$RND 1\<newline>'', Sent ''\<newline>'',
                           Sent ''$RND?\<newline>'', Sent ''\<newline>'', Received []]\<rparr>"
        and F = whole_floats]
    by (simp add: row_run_defs)
  have i5: "restore_row whole_floats flaky ?nl False
        (row_of (frq_item\<lparr>cmd_read := ''$RND 2''\<rparr>) ''12'') st0 =
     Inr (st0\<lparr>r_port := \<lparr>dev_state = ''$FRQ 12\<newline>'',
                            wire = [Sent ''\<newline>'', Sent ''$FRQ 12\<newline>'', Sent ''\<newline>'',
                                    Sent ''$RND 2\<newline>'']\<rparr>,
              write_count := 1, write_fail_count := 1, failures := 1,
              r_log := [''[FAIL] FRQ | $FRQ 12 | error=Write timeout\<newline>'']\<rparr>)"
    using restore_verifies_after_write[where r = "row_of (frq_item\<lparr>cmd_read := ''$RND 2''\<rparr>) ''12''"
        and full = "''$FRQ 12''" and D = flaky and e = ?nl and st = st0 and u = "()"
        and sw = "\<lparr>dev_state = ''$FRQ 12\<newline>'', wire = [Sent ''\<newline>'', Sent ''$FRQ 12\<newline>'']\<rparr>"
        and x = "SerialException ''Write timeout''"
        and sq = "\<lparr>dev_state = ''$FRQ 12\<newline>'',
                   wire = [Sent ''\<newline>'', Sent ''$FRQ 12\<newline>'', Sent ''\<newline>'',
                           Sent ''$RND 2\<newline>'']\<rparr>"
        and F = whole_floats]
    by (simp add: row_run_defs)
  have "\<exists>res. restore_from_csv whole_floats flaky cfg0 now0
              [row_of rnd_item ''2'', row_of frq_item ''13'', row_of (cbt_item 5) ''200'']
              False port0 = Inr res
          \<and> rst_failures res = 2 \<and> rst_bad_verify res = 1"
    by (simp add: row_run_defs)
  then obtain res where run: "restore_from_csv whole_floats flaky cfg0 now0
              [row_of rnd_item ''2'', row_of frq_item ''13'', row_of (cbt_item 5) ''200'']
              False port0 = Inr res"
    and c: "rst_failures res = 2" "rst_bad_verify res = 1"
    by (elim exE conjE) (rule that)
  from restore_verifies_after_write[where F = whole_floats and D = flaky and cfg = cfg0
      and now = now0
      and rows = "[row_of rnd_item ''2'', row_of frq_item ''13'', row_of (cbt_item 5) ''200'']"
      and dry = False and s = port0 and res = res] run
  have sum: "rst_failures res = rst_bad_verify res + rst_write_fail res" by blast
  with c have "rst_write_fail res = 1" by simp
  with run c sum have i6: "\<exists>res. restore_from_csv whole_floats flaky cfg0 now0
              [row_of rnd_item ''2'', row_of frq_item ''13'', row_of (cbt_item 5) ''200'']
              False port0 = Inr res
          \<and> rst_failures res = 2 \<and> rst_bad_verify res = 1 \<and> rst_write_fail res = 1
          \<and> rst_failures res = rst_bad_verify res + rst_write_fail res"
    by (intro exI[of _ res] conjI)
  from i1 i2 i3 i4 i5 i6 show ?thesis by (intro conjI)
qed

end
